theory Spec2Isabelle
  imports Complex_Main "HOL-Library.Sublist" "HOL-Library.Char_ord" "HOL-Library.List_Lexorder"
begin

section \<open>Malspy: feature extraction and risk fusion\<close>

text \<open>
  A shallow embedding of \<^verbatim>\<open>Backend/app/analyzer.py\<close>, \<^verbatim>\<open>Backend/app/main.py\<close>,
  \<^verbatim>\<open>Backend/app/ml_model.py\<close> and \<^verbatim>\<open>Backend/app/risk_model.py\<close>.

  Conventions of the embedding:
  \<^item> Python \<^verbatim>\<open>str\<close> and \<^verbatim>\<open>bytes\<close> are both \<open>string\<close> (a list of 8-bit characters).
  \<^item> Python \<^verbatim>\<open>float\<close> scores are \<open>real\<close>: the arithmetic is exact, rounding of IEEE
    doubles is not modelled.
  \<^item> A Python \<^verbatim>\<open>set\<close> of strings is a \<open>string set\<close>; \<^verbatim>\<open>sorted(s)\<close> is
    \<open>sorted_list_of_set s\<close> under the lexicographic order of characters, \<^verbatim>\<open>len(s)\<close> is \<open>card s\<close>.
  \<^item> An exception is a value: a call that may raise returns \<open>None\<close> or \<open>Inl\<close>.
  \<^item> The androguard library and \<^verbatim>\<open>bytes.decode\<close> are outside the repository; what they
    return is an input of the model (the records \<open>apk\<close> and \<open>platform\<close> below).
\<close>

subsection \<open>Python string helpers\<close>

text \<open>\<^verbatim>\<open>needle in hay\<close> on strings: contiguous substring containment.\<close>

fun py_in :: "string \<Rightarrow> string \<Rightarrow> bool" where
  "py_in needle [] = (needle = [])"
| "py_in needle (c # cs) = (prefix needle (c # cs) \<or> py_in needle cs)"

text \<open>\<^verbatim>\<open>s.endswith(suffix)\<close>.\<close>

definition endswith :: "string \<Rightarrow> string \<Rightarrow> bool" where
  "endswith s sfx = prefix (rev sfx) (rev s)"

text \<open>\<^verbatim>\<open>s.lower()\<close> on ASCII text (the only strings it is applied to are ASCII constants).\<close>

definition lower_char :: "char \<Rightarrow> char" where
  "lower_char c =
     (if c \<in> set ''ABCDEFGHIJKLMNOPQRSTUVWXYZ''
      then char_of (of_char c + (32::nat)) else c)"

definition lower :: "string \<Rightarrow> string" where
  "lower s = map lower_char s"

subsection \<open>Constant tables\<close>

text \<open>\<^verbatim>\<open>analyzer.SUSPICIOUS_API_SUBSTRINGS\<close> (9 entries).\<close>

definition SUSPICIOUS_API_SUBSTRINGS :: "string list" where
  "SUSPICIOUS_API_SUBSTRINGS =
    [''java/lang/Runtime;->exec'',
     ''dalvik/system/DexClassLoader;-><init>'',
     ''java/lang/reflect/Method;->invoke'',
     ''android/telephony/SmsManager;->sendTextMessage'',
     ''javax/crypto/Cipher;->init'',
     ''java/net/HttpURLConnection;->connect'',
     ''okhttp3/OkHttpClient;->newCall'',
     ''org/apache/http/client/HttpClient;->execute'',
     ''java/net/URL;->openConnection'']"

text \<open>\<^verbatim>\<open>risk_model.DANGEROUS_PERMISSIONS\<close>, and the identical local set \<^verbatim>\<open>dangerous\<close> of
  \<^verbatim>\<open>ml_model.extract_vector\<close>, as the list of their 15 elements.\<close>

definition DANGEROUS_PERMISSIONS :: "string list" where
  "DANGEROUS_PERMISSIONS =
    [''android.permission.SEND_SMS'',
     ''android.permission.RECEIVE_SMS'',
     ''android.permission.READ_SMS'',
     ''android.permission.CALL_PHONE'',
     ''android.permission.READ_CONTACTS'',
     ''android.permission.WRITE_CONTACTS'',
     ''android.permission.READ_CALL_LOG'',
     ''android.permission.WRITE_CALL_LOG'',
     ''android.permission.RECEIVE_BOOT_COMPLETED'',
     ''android.permission.SYSTEM_ALERT_WINDOW'',
     ''android.permission.REQUEST_INSTALL_PACKAGES'',
     ''android.permission.WRITE_SETTINGS'',
     ''android.permission.READ_PHONE_STATE'',
     ''android.permission.RECORD_AUDIO'',
     ''android.permission.CAMERA'']"

text \<open>\<^verbatim>\<open>risk_model.SUSPICIOUS_APIS\<close> (5 entries) and \<^verbatim>\<open>risk_model.NETWORK_INDICATORS\<close>.\<close>

definition SUSPICIOUS_APIS :: "string list" where
  "SUSPICIOUS_APIS =
    [''java/lang/Runtime;->exec'',
     ''dalvik/system/DexClassLoader;-><init>'',
     ''java/lang/reflect/Method;->invoke'',
     ''android/telephony/SmsManager;->sendTextMessage'',
     ''javax/crypto/Cipher;->init'']"

definition NETWORK_INDICATORS :: "string list" where
  "NETWORK_INDICATORS = [''http://'', ''https://'', ''ftp://'']"

text \<open>The local set \<^verbatim>\<open>suspicious_sys\<close> of \<^verbatim>\<open>dynamic_score\<close> and of \<^verbatim>\<open>extract_vector\<close>.\<close>

definition suspicious_sys :: "string list" where
  "suspicious_sys = [''execve'', ''chmod'', ''chown'', ''ptrace'', ''kill'']"

text \<open>The keyword list written inline in \<^verbatim>\<open>analyze_static\<close> and \<^verbatim>\<open>analyze_hybrid\<close>.\<close>

definition perm_keywords :: "string list" where
  "perm_keywords = [''SMS'', ''CALL'', ''INTERNET'', ''RECORD_AUDIO'', ''CAMERA'']"

subsection \<open>What the container parser returns\<close>

text \<open>
  A cross-reference \<^verbatim>\<open>s\<close> is read through \<^verbatim>\<open>s.class_name\<close> and \<^verbatim>\<open>s.name\<close>.
  \<^verbatim>\<open>method.get_xref_to()\<close>, \<^verbatim>\<open>cls.get_methods()\<close> and \<^verbatim>\<open>dx.get_classes()\<close> may raise:
  then the value is \<open>None\<close>.
\<close>

type_synonym xref = "string \<times> string"
type_synonym method_analysis = "xref list option"
type_synonym class_analysis = "method_analysis list option"
type_synonym analysis = "class_analysis list option"

record apk =
  get_package :: string
  get_permissions :: "string list"
  get_receivers :: "string list"
  get_services :: "string list"
  get_providers :: "string list"
  get_intent_filters :: "string list list option"
  get_min_sdk_version :: string
  get_target_sdk_version :: string
  get_main_activity :: string
  get_classes :: analysis
  get_files :: "string list option"

text \<open>
  The platform: \<^verbatim>\<open>AnalyzeAPK\<close> on the bytes of the file (\<open>Inl\<close> carries the message of the
  exception it raises on a malformed container), and \<^verbatim>\<open>bytes.decode(errors="ignore")\<close>.
\<close>

record platform =
  AnalyzeAPK :: "string \<Rightarrow> string + apk"
  decode_ignore :: "string \<Rightarrow> string"

subsection \<open>Bytecode cross-reference scan\<close>

text \<open>The innermost loop: \<^verbatim>\<open>for needle in SUSPICIOUS_API_SUBSTRINGS: if needle in called: hits.add(needle)\<close>.\<close>

definition called_of :: "xref \<Rightarrow> string" where
  "called_of s = fst s @ ''->'' @ snd s"

definition match_call :: "string \<Rightarrow> string set \<Rightarrow> string set" where
  "match_call called hits =
     fold (\<lambda>needle h. if py_in needle called then insert needle h else h)
       SUSPICIOUS_API_SUBSTRINGS hits"

text \<open>One method: an exception of \<^verbatim>\<open>get_xref_to\<close> is caught inside the method loop
  (\<^verbatim>\<open>continue\<close>).\<close>

definition match_method :: "method_analysis \<Rightarrow> string set \<Rightarrow> string set" where
  "match_method m hits =
     (case m of None \<Rightarrow> hits
      | Some xs \<Rightarrow> fold (\<lambda>s h. match_call (called_of s) h) xs hits)"

text \<open>The class loop: an exception of \<^verbatim>\<open>get_methods\<close> reaches the outer handler, which ends
  the scan and keeps the hits found so far.\<close>

fun match_classes :: "class_analysis list \<Rightarrow> string set \<Rightarrow> string set" where
  "match_classes [] hits = hits"
| "match_classes (None # cs) hits = hits"
| "match_classes (Some ms # cs) hits = match_classes cs (fold match_method ms hits)"

definition match_suspicious_apis :: "analysis \<Rightarrow> string list" where
  "match_suspicious_apis dx =
     sorted_list_of_set (case dx of None \<Rightarrow> {} | Some cs \<Rightarrow> match_classes cs {})"

text \<open>The same loops in \<^verbatim>\<open>dynamic_features\<close>, which put each matched needle into
  \<^verbatim>\<open>net_hits\<close> or \<^verbatim>\<open>sys_hits\<close>.\<close>

definition is_network_needle :: "string \<Rightarrow> bool" where
  "is_network_needle needle =
     (py_in ''Http'' needle \<or> py_in ''URL;'' needle \<or> py_in ''OkHttp'' needle
      \<or> py_in ''http'' (lower needle))"

definition classify_call :: "string \<Rightarrow> string set \<times> string set \<Rightarrow> string set \<times> string set" where
  "classify_call called hits =
     fold (\<lambda>needle (net_hits, sys_hits).
             if py_in needle called
             then (if is_network_needle needle
                   then (insert needle net_hits, sys_hits)
                   else (net_hits, insert needle sys_hits))
             else (net_hits, sys_hits))
       SUSPICIOUS_API_SUBSTRINGS hits"

definition classify_method ::
  "method_analysis \<Rightarrow> string set \<times> string set \<Rightarrow> string set \<times> string set" where
  "classify_method m hits =
     (case m of None \<Rightarrow> hits
      | Some xs \<Rightarrow> fold (\<lambda>s h. classify_call (called_of s) h) xs hits)"

fun classify_classes ::
  "class_analysis list \<Rightarrow> string set \<times> string set \<Rightarrow> string set \<times> string set" where
  "classify_classes [] hits = hits"
| "classify_classes (None # cs) hits = hits"
| "classify_classes (Some ms # cs) hits = classify_classes cs (fold classify_method ms hits)"

definition classify_hits :: "analysis \<Rightarrow> string set \<times> string set" where
  "classify_hits dx = (case dx of None \<Rightarrow> ({}, {}) | Some cs \<Rightarrow> classify_classes cs ({}, {}))"

subsection \<open>Regular expressions of the byte scan\<close>

text \<open>
  The two patterns of \<^verbatim>\<open>analyzer.py\<close> use literal bytes, byte classes, concatenation,
  ordered alternatives, the greedy \<^verbatim>\<open>?\<close>, a greedy \<^verbatim>\<open>+\<close> on a byte class and \<^verbatim>\<open>\b\<close>.
  A cursor is the byte before the current position (if any) and the bytes from it on.
  \<open>step r k\<close> lists the cursors at which a match of \<open>r\<close> begun at \<open>k\<close> can end, in the
  order in which the backtracking matcher of \<^verbatim>\<open>re\<close> tries them: the earlier alternative
  first, the longer repetition first. The match it reports is the head of that list.
\<close>

datatype rx =
    Eps
  | Cls "char \<Rightarrow> bool"
  | Sq rx rx
  | Alt rx rx
  | Opt rx
  | Plus "char \<Rightarrow> bool"
  | WordB

type_synonym cursor = "char option \<times> string"

text \<open>For a bytes pattern \<^verbatim>\<open>\d\<close> is \<^verbatim>\<open>[0-9]\<close>, \<^verbatim>\<open>\w\<close> is \<^verbatim>\<open>[a-zA-Z0-9_]\<close> and
  \<^verbatim>\<open>\s\<close> is \<^verbatim>\<open>[ \t\n\r\f\v]\<close>.\<close>

definition digit :: "char \<Rightarrow> bool" where
  "digit c = (c \<in> set ''0123456789'')"

definition word_char :: "char \<Rightarrow> bool" where
  "word_char c =
     (c \<in> set ''abcdefghijklmnopqrstuvwxyzABCDEFGHIJKLMNOPQRSTUVWXYZ0123456789_'')"

definition whitespace :: "char \<Rightarrow> bool" where
  "whitespace c = (c \<in> set [CHR '' '', CHR 0x09, CHR 0x0A, CHR 0x0D, CHR 0x0C, CHR 0x0B])"

text \<open>\<^verbatim>\<open>\b\<close>: exactly one of the two neighbouring bytes is a word byte (a missing
  neighbour counts as a non-word byte).\<close>

definition at_boundary :: "cursor \<Rightarrow> bool" where
  "at_boundary k =
     ((case fst k of None \<Rightarrow> False | Some c \<Rightarrow> word_char c)
      \<noteq> (case snd k of [] \<Rightarrow> False | c # _ \<Rightarrow> word_char c))"

fun many :: "(char \<Rightarrow> bool) \<Rightarrow> cursor \<Rightarrow> cursor list" where
  "many P (p, []) = []"
| "many P (p, c # cs) = (if P c then many P (Some c, cs) @ [(Some c, cs)] else [])"

fun step :: "rx \<Rightarrow> cursor \<Rightarrow> cursor list" where
  "step Eps k = [k]"
| "step (Cls P) (p, []) = []"
| "step (Cls P) (p, c # cs) = (if P c then [(Some c, cs)] else [])"
| "step (Sq a b) k = concat (map (step b) (step a k))"
| "step (Alt a b) k = step a k @ step b k"
| "step (Opt a) k = step a k @ [k]"
| "step (Plus P) k = many P k"
| "step WordB k = (if at_boundary k then [k] else [])"

fun lit :: "string \<Rightarrow> rx" where
  "lit [] = Eps"
| "lit (c # cs) = Sq (Cls (\<lambda>x. x = c)) (lit cs)"

text \<open>\<^verbatim>\<open>URL_RE = rb"(https?://[^\s'\"<>]+)"\<close>\<close>

definition url_byte :: "char \<Rightarrow> bool" where
  "url_byte c = (\<not> whitespace c \<and> c \<notin> set [CHR 0x27, CHR 0x22, CHR ''<'', CHR ''>''])"

definition URL_RE :: rx where
  "URL_RE = Sq (lit ''http'') (Sq (Opt (lit ''s'')) (Sq (lit ''://'') (Plus url_byte)))"

text \<open>\<^verbatim>\<open>IP_RE = rb"\b(?:(?:25[0-5]|2[0-4]\d|[01]?\d?\d)\.){3}(?:25[0-5]|2[0-4]\d|[01]?\d?\d)\b"\<close>\<close>

definition octet_rx :: rx where
  "octet_rx =
     Alt (Sq (lit ''25'') (Cls (\<lambda>c. c \<in> set ''012345'')))
    (Alt (Sq (lit ''2'') (Sq (Cls (\<lambda>c. c \<in> set ''01234'')) (Cls digit)))
         (Sq (Opt (Cls (\<lambda>c. c \<in> set ''01''))) (Sq (Opt (Cls digit)) (Cls digit))))"

definition octet_dot_rx :: rx where
  "octet_dot_rx = Sq octet_rx (lit ''.'')"

definition IP_RE :: rx where
  "IP_RE = Sq WordB (Sq (Sq octet_dot_rx (Sq octet_dot_rx octet_dot_rx)) (Sq octet_rx WordB))"

text \<open>The match of \<open>r\<close> that begins at the cursor: its length.\<close>

definition match_at :: "rx \<Rightarrow> cursor \<Rightarrow> nat option" where
  "match_at r k =
     (case step r k of [] \<Rightarrow> None | k' # _ \<Rightarrow> Some (length (snd k) - length (snd k')))"

text \<open>
  \<^verbatim>\<open>r.finditer(raw)\<close>: the leftmost match, then the search goes on behind it; each match
  is given as (start, matched bytes), that is \<^verbatim>\<open>(m.start(), m.group(0))\<close>.
  \<open>skip\<close> counts the bytes of the last match that are still to be passed over. Both
  patterns match non-empty text only; empty matches are not modelled.
\<close>

fun finditer_from :: "rx \<Rightarrow> char option \<Rightarrow> string \<Rightarrow> nat \<Rightarrow> nat \<Rightarrow> (nat \<times> string) list" where
  "finditer_from r p [] skip i = []"
| "finditer_from r p (c # cs) 0 i =
     (case match_at r (p, c # cs) of
        None \<Rightarrow> finditer_from r (Some c) cs 0 (Suc i)
      | Some n \<Rightarrow> (i, take n (c # cs)) # finditer_from r (Some c) cs (n - 1) (Suc i))"
| "finditer_from r p (c # cs) (Suc skip) i = finditer_from r (Some c) cs skip (Suc i)"

definition finditer :: "rx \<Rightarrow> string \<Rightarrow> (nat \<times> string) list" where
  "finditer r raw = finditer_from r None raw 0 0"

text \<open>The set comprehensions of \<^verbatim>\<open>dynamic_features\<close>. A match of \<open>IP_RE\<close> is ASCII text, on
  which decoding is the identity.\<close>

definition scan_urls :: "platform \<Rightarrow> string \<Rightarrow> string set" where
  "scan_urls P raw = set (map (\<lambda>m. decode_ignore P (snd m)) (finditer URL_RE raw))"

definition scan_ips :: "string \<Rightarrow> string set" where
  "scan_ips raw = set (map snd (finditer IP_RE raw))"

subsection \<open>Feature records (\<^verbatim>\<open>analyzer.py\<close>)\<close>

record static_feats =
  package :: string
  permissions :: "string list"
  receivers :: "string list"
  services :: "string list"
  providers :: "string list"
  intents :: "string list"
  suspicious_apis :: "string list"
  apk_size :: nat
  min_sdk_version :: string
  target_sdk_version :: string
  main_activity :: string

text \<open>\<^verbatim>\<open>static_features\<close>: the only exception that leaves it is the one of \<^verbatim>\<open>AnalyzeAPK\<close>;
  a failure of \<^verbatim>\<open>get_intent_filters\<close> leaves \<^verbatim>\<open>intents\<close> empty.\<close>

definition static_features :: "platform \<Rightarrow> string \<Rightarrow> string + static_feats" where
  "static_features P content =
     (case AnalyzeAPK P content of
        Inl e \<Rightarrow> Inl e
      | Inr a \<Rightarrow>
          Inr \<lparr> package = get_package a,
                permissions = sorted_list_of_set (set (get_permissions a)),
                receivers = get_receivers a,
                services = get_services a,
                providers = get_providers a,
                intents = sorted_list_of_set
                  (set (case get_intent_filters a of None \<Rightarrow> [] | Some fs \<Rightarrow> concat fs)),
                suspicious_apis = match_suspicious_apis (get_classes a),
                apk_size = length content,
                min_sdk_version = get_min_sdk_version a,
                target_sdk_version = get_target_sdk_version a,
                main_activity = get_main_activity a \<rparr>)"

record behavior_summary =
  n_network_calls :: nat
  n_system_indicators :: nat
  n_native_libs :: nat

record dynamic_record =
  apk :: string
  network_calls :: "string list"
  network_ips :: "string list"
  system_calls :: "string list"
  native_libs :: "string list"
  sms_used :: bool
  status :: string
  behavior_summary :: behavior_summary

text \<open>The dictionary \<^verbatim>\<open>dynamic_features\<close> returns: either \<^verbatim>\<open>{"error": ...}\<close> or the full
  record.\<close>

datatype dyn_logs = ErrorDict string | Logs dynamic_record

definition basename :: "string \<Rightarrow> string" where
  "basename f = rev (takeWhile (\<lambda>c. c \<noteq> CHR ''/'') (rev f))"

definition dynamic_features :: "platform \<Rightarrow> string \<Rightarrow> string \<Rightarrow> dyn_logs" where
  "dynamic_features P apk_path content =
     (case AnalyzeAPK P content of
        Inl e \<Rightarrow> ErrorDict (''AnalyzeAPK failed: '' @ e)
      | Inr a \<Rightarrow>
          (let raw = content;
               urls = scan_urls P raw;
               ips = scan_ips raw;
               (net_hits, sys_hits) = classify_hits (get_classes a);
               libs = (case get_files a of None \<Rightarrow> []
                       | Some fs \<Rightarrow> map basename (filter (\<lambda>f. endswith f ''.so'') fs));
               sms = (\<exists>s \<in> net_hits \<union> sys_hits \<union> set SUSPICIOUS_API_SUBSTRINGS.
                        py_in ''SmsManager'' s)
           in Logs \<lparr> apk = apk_path,
                     network_calls = sorted_list_of_set urls,
                     network_ips = sorted_list_of_set ips,
                     system_calls = (if sys_hits \<noteq> {} then sorted_list_of_set sys_hits
                                     else sorted_list_of_set net_hits),
                     native_libs = libs,
                     sms_used = sms,
                     status = ''heuristic-dynamic-extraction-complete'',
                     behavior_summary =
                       \<lparr> n_network_calls = card urls,
                         n_system_indicators =
                           (if card sys_hits \<noteq> 0 then card sys_hits else card net_hits),
                         n_native_libs = length libs \<rparr> \<rparr>))"

text \<open>\<^verbatim>\<open>dyn_logs.get(key, default)\<close> for the keys the callers read.\<close>

fun get_network_calls :: "dyn_logs \<Rightarrow> string list" where
  "get_network_calls (ErrorDict e) = []"
| "get_network_calls (Logs r) = network_calls r"

fun get_system_calls :: "dyn_logs \<Rightarrow> string list" where
  "get_system_calls (ErrorDict e) = []"
| "get_system_calls (Logs r) = system_calls r"

fun get_sms_used :: "dyn_logs \<Rightarrow> bool" where
  "get_sms_used (ErrorDict e) = False"
| "get_sms_used (Logs r) = sms_used r"

fun get_n_system_indicators :: "dyn_logs \<Rightarrow> nat" where
  "get_n_system_indicators (ErrorDict e) = 0"
| "get_n_system_indicators (Logs r) = n_system_indicators (behavior_summary r)"

subsection \<open>Action recommendation and Policy A (\<^verbatim>\<open>hybrid_features\<close>)\<close>

definition determine_action :: "string \<Rightarrow> real \<Rightarrow> string" where
  "determine_action verdict risk_score =
     (let v = lower verdict in
      if v = ''benign'' then ''Safe to use''
      else if v = ''adware'' then ''Contains ads or trackers - use caution''
      else if v = ''spyware'' then ''Spyware detected - avoid installation''
      else if v = ''trojan'' then ''Trojan behaviour - uninstall or block immediately''
      else if v = ''ransomware'' then ''Ransomware detected - do not install and isolate device''
      else ''Unknown - manual review recommended'')"

record hybrid_summary =
  static_suspicious :: nat
  dynamic_network_indicators :: nat
  dynamic_sys_indicators :: nat

record hybrid_result =
  hf_static :: static_feats
  hf_dynamic :: dyn_logs
  hf_summary :: hybrid_summary
  hf_verdict :: string
  hf_risk_score :: real
  hf_recommended_action :: string

text \<open>The five buckets of \<^verbatim>\<open>hybrid_features\<close>: (risk_score, verdict) of a count.\<close>

definition bucket :: "nat \<Rightarrow> real \<times> string" where
  "bucket suspicious_count =
     (if suspicious_count \<le> 2 then (0.1, ''benign'')
      else if suspicious_count \<le> 4 then (0.35, ''adware'')
      else if suspicious_count \<le> 6 then (0.55, ''spyware'')
      else if suspicious_count \<le> 9 then (0.75, ''trojan'')
      else (0.9, ''ransomware''))"

definition suspicious_count :: "static_feats \<Rightarrow> dyn_logs \<Rightarrow> nat" where
  "suspicious_count static dynamic =
     length (suspicious_apis static) + get_n_system_indicators dynamic"

definition hybrid_features :: "platform \<Rightarrow> string \<Rightarrow> string \<Rightarrow> string + hybrid_result" where
  "hybrid_features P apk_path content =
     (case static_features P content of
        Inl e \<Rightarrow> Inl e
      | Inr static \<Rightarrow>
          (let dynamic = dynamic_features P apk_path content;
               (risk_score, verdict) = bucket (suspicious_count static dynamic)
           in Inr \<lparr> hf_static = static,
                    hf_dynamic = dynamic,
                    hf_summary =
                      \<lparr> static_suspicious = length (suspicious_apis static),
                        dynamic_network_indicators = length (get_network_calls dynamic),
                        dynamic_sys_indicators = length (get_system_calls dynamic) \<rparr>,
                    hf_verdict = verdict,
                    hf_risk_score = risk_score,
                    hf_recommended_action = determine_action verdict risk_score \<rparr>))"

subsection \<open>Policy B: the endpoints of \<^verbatim>\<open>main.py\<close>\<close>

datatype http_error = HTTPException nat string

record response =
  analysis_type :: string
  verdict :: string
  risk_score :: real
  recommended_action :: string

record static_response = response +
  features :: static_feats

record dynamic_response = response +
  logs :: dyn_logs

record hybrid_response = response +
  style :: string
  resp_static_features :: static_feats
  resp_dynamic_logs :: dyn_logs

text \<open>The \<^verbatim>\<open>if risk_score < 0.2 ... elif ... else\<close> chain, written out identically in the
  three endpoints.\<close>

definition score_verdict :: "real \<Rightarrow> string" where
  "score_verdict r =
     (if r < 0.2 then ''benign''
      else if r < 0.4 then ''adware''
      else if r < 0.6 then ''spyware''
      else if r < 0.8 then ''trojan''
      else ''ransomware'')"

text \<open>\<^verbatim>\<open>sum(1 for p in perms if any(x in p for x in [...]))\<close>, where \<^verbatim>\<open>perms\<close> is
  \<^verbatim>\<open>feats.get("permissions", [])\<close>.\<close>

definition n_dangerous_perms :: "string list \<Rightarrow> nat" where
  "n_dangerous_perms perms =
     length (filter (\<lambda>p. list_ex (\<lambda>x. py_in x p) perm_keywords) perms)"

definition extract_static_features :: "platform \<Rightarrow> string \<Rightarrow> string + static_feats" where
  "extract_static_features P content = static_features P content"

definition analyze_dynamic_features :: "platform \<Rightarrow> string \<Rightarrow> string \<Rightarrow> dyn_logs" where
  "analyze_dynamic_features P apk_path content = dynamic_features P apk_path content"

text \<open>
  The endpoints take the platform, the path \<open>tmp\<close> of the temporary file, the name of the
  upload and its bytes. \<open>Inl\<close> is the \<^verbatim>\<open>HTTPException\<close> raised, \<open>Inr\<close> the response body.
\<close>

definition analyze_static :: "platform \<Rightarrow> string \<Rightarrow> string \<Rightarrow> string \<Rightarrow> http_error + static_response" where
  "analyze_static P tmp filename content =
     (if \<not> endswith filename ''.apk'' then Inl (HTTPException 400 ''Please upload an .apk file'')
      else if content = [] then Inl (HTTPException 400 ''Empty file received'')
      else
        (case extract_static_features P content of
           Inl e \<Rightarrow> Inl (HTTPException 500 (''Static analysis failed: '' @ e))
         | Inr feats \<Rightarrow>
             (let n_suspicious_apis = length (suspicious_apis feats);
                  score = min 1 (0.2 * real (n_dangerous_perms (permissions feats))
                                 + 0.15 * real n_suspicious_apis);
                  v = score_verdict score
              in Inr \<lparr> analysis_type = ''static'',
                       verdict = v,
                       risk_score = score,
                       recommended_action = determine_action v score,
                       features = feats \<rparr>)))"

definition analyze_dynamic :: "platform \<Rightarrow> string \<Rightarrow> string \<Rightarrow> string \<Rightarrow> http_error + dynamic_response" where
  "analyze_dynamic P tmp filename content =
     (if \<not> endswith filename ''.apk'' then Inl (HTTPException 400 ''Please upload an .apk file'')
      else if content = [] then Inl (HTTPException 400 ''Empty file received'')
      else
        (let dyn_logs = analyze_dynamic_features P tmp content;
             n_network = length (get_network_calls dyn_logs);
             n_syscalls = length (get_system_calls dyn_logs);
             sms = get_sms_used dyn_logs;
             score = min 1 (0.2 * real n_network + 0.2 * real n_syscalls
                            + (if sms then 0.3 else 0));
             v = score_verdict score
         in Inr \<lparr> analysis_type = ''dynamic'',
                  verdict = v,
                  risk_score = score,
                  recommended_action = determine_action v score,
                  logs = dyn_logs \<rparr>))"

text \<open>\<^verbatim>\<open>ml_model.extract_vector\<close>; every element of \<^verbatim>\<open>network_calls\<close> is a \<^verbatim>\<open>str\<close>.\<close>

definition extract_vector :: "static_feats \<Rightarrow> dyn_logs \<Rightarrow> nat list" where
  "extract_vector static_feats dynamic_metrics =
     (let perms = set (permissions static_feats);
          n_danger = card (perms \<inter> set DANGEROUS_PERMISSIONS);
          n_api = length (suspicious_apis static_feats);
          net_calls = get_network_calls dynamic_metrics;
          sys_calls = get_system_calls dynamic_metrics;
          n_net = length net_calls;
          n_sys = card (set sys_calls \<inter> set suspicious_sys);
          has_boot = (if \<exists>s \<in> set (intents static_feats). py_in ''BOOT_COMPLETED'' s
                      then 1 else 0)
      in [n_danger, n_api, n_net, n_sys, has_boot])"

text \<open>
  The global \<^verbatim>\<open>MODEL\<close> is \<open>None\<close> when no artifact was loaded; a loaded classifier is the
  function from a feature vector to \<^verbatim>\<open>predict_proba([vec])[0][1]\<close>.
\<close>

definition analyze_hybrid ::
  "platform \<Rightarrow> (nat list \<Rightarrow> real) option \<Rightarrow> string \<Rightarrow> string \<Rightarrow> string
     \<Rightarrow> http_error + hybrid_response" where
  "analyze_hybrid P MODEL tmp filename content =
     (if \<not> endswith filename ''.apk'' then Inl (HTTPException 400 ''Please upload an .apk file'')
      else if content = [] then Inl (HTTPException 400 ''Empty file received'')
      else
        (case extract_static_features P content of
           Inl e \<Rightarrow> Inl (HTTPException 500 (''Hybrid analysis failed: '' @ e))
         | Inr feats \<Rightarrow>
             (let dyn_logs = analyze_dynamic_features P tmp content;
                  n_suspicious_apis = length (suspicious_apis feats);
                  n_network = length (get_network_calls dyn_logs);
                  n_syscalls = length (get_system_calls dyn_logs);
                  sms = get_sms_used dyn_logs;
                  heuristic_score =
                    min 1 (0.15 * real (n_dangerous_perms (permissions feats)) + 0.15 * real n_suspicious_apis
                           + 0.2 * real n_network + 0.2 * real n_syscalls
                           + (if sms then 0.2 else 0));
                  score = (case MODEL of
                             Some clf \<Rightarrow> clf (extract_vector feats dyn_logs)
                           | None \<Rightarrow> heuristic_score);
                  v = score_verdict score
              in Inr \<lparr> analysis_type = ''hybrid'',
                       verdict = v,
                       risk_score = score,
                       recommended_action = determine_action v score,
                       style = (if v = ''benign'' then ''#4CAF50'' else ''#F44336''),
                       resp_static_features = feats,
                       resp_dynamic_logs = dyn_logs \<rparr>)))"

subsection \<open>Policy C: \<^verbatim>\<open>risk_model.py\<close>\<close>

text \<open>
  The scorers read three keys of the \<^verbatim>\<open>features\<close> dictionary (\<^verbatim>\<open>permissions\<close>,
  \<^verbatim>\<open>suspicious_apis\<close>, \<^verbatim>\<open>intents\<close>; a missing key reads as the empty list) and two keys of
  the \<^verbatim>\<open>logs\<close> dictionary. A \<^verbatim>\<open>logs\<close> dictionary is given by its two entries, each absent
  (\<open>None\<close>) or a list of strings, and the names of its other keys. The third component of
  the results, the explanation text, is left out.
\<close>

record logs_dict =
  lg_network_calls :: "string list option"
  lg_system_calls :: "string list option"
  lg_other_keys :: "string list"

text \<open>Python truthiness of a dictionary: it has a key.\<close>

definition dict_truthy :: "logs_dict \<Rightarrow> bool" where
  "dict_truthy d =
     (lg_network_calls d \<noteq> None \<or> lg_system_calls d \<noteq> None \<or> lg_other_keys d \<noteq> [])"

definition static_score :: "static_feats \<Rightarrow> real \<times> string" where
  "static_score feats =
     (let perms = set (permissions feats);
          n_danger = card (perms \<inter> set DANGEROUS_PERMISSIONS);
          perm_score = real n_danger / real (max 1 (card (set DANGEROUS_PERMISSIONS)));
          apis = set (suspicious_apis feats);
          api_score = real (card apis) / real (max 1 (length SUSPICIOUS_APIS));
          intent_score = (if \<exists>s \<in> set (intents feats). py_in ''BOOT_COMPLETED'' s
                          then 1 else 0);
          risk = 0.5 * perm_score + 0.3 * api_score + 0.2 * intent_score;
          risk = max 0 (min 1 risk);
          verdict = (if risk \<ge> 0.70 then ''malicious''
                     else if risk \<ge> 0.40 then ''suspicious'' else ''benign'')
      in (risk, verdict))"

definition dynamic_score :: "logs_dict \<Rightarrow> real \<times> string" where
  "dynamic_score lg =
     (let net = (case lg_network_calls lg of None \<Rightarrow> [] | Some xs \<Rightarrow> xs);
          sys = (case lg_system_calls lg of None \<Rightarrow> [] | Some xs \<Rightarrow> xs);
          n_net_hits = length (filter (\<lambda>n. list_ex (\<lambda>ind. py_in ind n) NETWORK_INDICATORS) net);
          n_sys_hits = card (set sys \<inter> set suspicious_sys);
          net_score = min 1 (real n_net_hits / 5);
          sys_score = min 1 (real n_sys_hits / 3);
          risk = 0.6 * sys_score + 0.4 * net_score;
          risk = max 0 (min 1 risk);
          verdict = (if risk \<ge> 0.65 then ''malicious''
                     else if risk \<ge> 0.35 then ''suspicious'' else ''benign'')
      in (risk, verdict))"

definition hybrid_score :: "static_feats \<Rightarrow> logs_dict option \<Rightarrow> real \<times> string" where
  "hybrid_score feats lg =
     (let (sr, sv) = static_score feats;
          risk = (case lg of
                    None \<Rightarrow> fst (static_score feats)
                  | Some d \<Rightarrow>
                      if dict_truthy d then (sr + fst (dynamic_score d)) / 2
                      else fst (static_score feats));
          verdict = (if risk \<ge> 0.70 then ''malicious''
                     else if risk \<ge> 0.40 then ''suspicious'' else ''benign'')
      in (risk, verdict))"

section \<open>Notions used to state the properties\<close>

text \<open>The set of matched needles before sorting: the \<^verbatim>\<open>hits\<close> of \<^verbatim>\<open>_match_suspicious_apis\<close>.\<close>

definition raw_hits :: "analysis \<Rightarrow> string set" where
  "raw_hits dx = (case dx of None \<Rightarrow> {} | Some cs \<Rightarrow> match_classes cs {})"

text \<open>A set of needles divided by the network test, and the componentwise union of two
  such pairs.\<close>

definition split_hits :: "string set \<Rightarrow> string set \<times> string set" where
  "split_hits H = (Set.filter is_network_needle H, Set.filter (\<lambda>n. \<not> is_network_needle n) H)"

definition join_hits ::
  "string set \<times> string set \<Rightarrow> string set \<times> string set \<Rightarrow> string set \<times> string set" where
  "join_hits a b = (fst a \<union> fst b, snd a \<union> snd b)"

text \<open>
  A sample package: it asks for two permissions, registers a boot receiver, and its only
  method calls two HTTP clients. The sample platform parses every upload that begins with
  the zip signature \<^verbatim>\<open>PK\<close> as this package and rejects everything else.
\<close>

definition sample_apk :: apk where
  "sample_apk =
     \<lparr> get_package = ''com.example.app'',
       get_permissions = [''android.permission.INTERNET'', ''android.permission.SEND_SMS''],
       get_receivers = [''com.example.app.BootReceiver''],
       get_services = [],
       get_providers = [],
       get_intent_filters = Some [[''android.intent.action.BOOT_COMPLETED'']],
       get_min_sdk_version = ''21'',
       get_target_sdk_version = ''33'',
       get_main_activity = ''com.example.app.MainActivity'',
       get_classes = Some [Some [Some [(''Ljava/net/HttpURLConnection;'', ''connect''),
                                       (''Lokhttp3/OkHttpClient;'', ''newCall'')]]],
       get_files = Some [''classes.dex'', ''lib/arm64-v8a/libnative.so''] \<rparr>"

definition sample_platform :: platform where
  "sample_platform =
     \<lparr> AnalyzeAPK = (\<lambda>content. if prefix ''PK'' content then Inr sample_apk
                                 else Inl ''File is not a zip file''),
       decode_ignore = (\<lambda>b. b) \<rparr>"

text \<open>Verdict and risk score of a result, \<open>None\<close> for a failure.\<close>

fun hf_outcome :: "string + hybrid_result \<Rightarrow> (string \<times> real) option" where
  "hf_outcome (Inl e) = None"
| "hf_outcome (Inr r) = Some (hf_verdict r, hf_risk_score r)"

fun outcome :: "http_error + 'a response_scheme \<Rightarrow> (string \<times> real) option" where
  "outcome (Inl e) = None"
| "outcome (Inr r) = Some (verdict r, risk_score r)"

text \<open>A three-level threshold table, and the order of the verdicts by severity.\<close>

definition verdict3 :: "real \<Rightarrow> real \<Rightarrow> real \<Rightarrow> string" where
  "verdict3 hi lo r =
     (if r \<ge> hi then ''malicious'' else if r \<ge> lo then ''suspicious'' else ''benign'')"


text \<open>Sample inputs of the Policy C scorers: a feature dictionary without any indicator,
  one with a single catalog permission, and a log dictionary with one network call and one
  suspicious system call.\<close>

definition empty_feats :: static_feats where
  "empty_feats =
     \<lparr> package = ''com.example.clean'', permissions = [], receivers = [], services = [],
       providers = [], intents = [], suspicious_apis = [], apk_size = 0,
       min_sdk_version = ''21'', target_sdk_version = ''33'',
       main_activity = ''com.example.clean.Main'' \<rparr>"

definition sms_feats :: static_feats where
  "sms_feats = empty_feats \<lparr> permissions := [''android.permission.SEND_SMS''] \<rparr>"

definition sample_logs :: logs_dict where
  "sample_logs =
     \<lparr> lg_network_calls = Some [''http://example.org/x''],
       lg_system_calls = Some [''execve''],
       lg_other_keys = [''status''] \<rparr>"

definition empty_logs :: logs_dict where
  "empty_logs = \<lparr> lg_network_calls = None, lg_system_calls = None, lg_other_keys = [] \<rparr>"

text \<open>A sample classifier: probability 0.3 for the feature vector of the sample package,
  0.9 for every other vector.\<close>

definition sample_classifier :: "nat list \<Rightarrow> real" where
  "sample_classifier vec = (if vec = [1, 2, 0, 0, 1] then 0.3 else 0.9)"

text \<open>
  The words of a pattern, without regard to \<^verbatim>\<open>\b\<close>: every match of \<open>r\<close> is a word of
  \<open>lang r\<close>.
\<close>

fun lang :: "rx \<Rightarrow> string set" where
  "lang Eps = {[]}"
| "lang (Cls P) = {[c] | c. P c}"
| "lang (Sq a b) = {u @ v | u v. u \<in> lang a \<and> v \<in> lang b}"
| "lang (Alt a b) = lang a \<union> lang b"
| "lang (Opt a) = insert [] (lang a)"
| "lang (Plus P) = {w. w \<noteq> [] \<and> (\<forall>c \<in> set w. P c)}"
| "lang WordB = {[]}"

text \<open>
  Dotted quads: \<^verbatim>\<open>text.split(".")\<close> has four parts, each one to three decimal digits
  with a value of at most 255.
\<close>

fun split_on :: "char \<Rightarrow> string \<Rightarrow> string list" where
  "split_on sep [] = [[]]"
| "split_on sep (c # cs) =
     (if c = sep then [] # split_on sep cs
      else (case split_on sep cs of [] \<Rightarrow> [[c]] | w # ws \<Rightarrow> (c # w) # ws))"

definition digit_val :: "char \<Rightarrow> nat" where
  "digit_val c = of_char c - 48"

definition decimal :: "string \<Rightarrow> nat" where
  "decimal w = foldl (\<lambda>n c. 10 * n + digit_val c) 0 w"

definition is_octet :: "string \<Rightarrow> bool" where
  "is_octet w = (w \<noteq> [] \<and> length w \<le> 3 \<and> list_all digit w \<and> decimal w \<le> 255)"

definition dotted_quad :: "string \<Rightarrow> bool" where
  "dotted_quad m = (length (split_on CHR ''.'' m) = 4 \<and> list_all is_octet (split_on CHR ''.'' m))"

text \<open>The byte before position \<open>j\<close> of \<open>s\<close>, when \<open>p\<close> is the byte before \<open>s\<close>.\<close>

definition prev_at :: "char option \<Rightarrow> string \<Rightarrow> nat \<Rightarrow> char option" where
  "prev_at p s j = (if j = 0 then p else Some (s ! (j - 1)))"


section \<open>The cross-reference scan\<close>

lemma py_in_sublist: "py_in needle hay = sublist needle hay"
  by (induction hay) (auto simp: sublist_Cons_right)

lemma fold_insert_if:
  "fold (\<lambda>x h. if Q x then insert x h else h) xs H = H \<union> {x \<in> set xs. Q x}"
  by (induction xs arbitrary: H) auto

lemma match_call_eq:
  "match_call called H = H \<union> {n \<in> set SUSPICIOUS_API_SUBSTRINGS. py_in n called}"
  unfolding match_call_def by (rule fold_insert_if)

lemma fold_classify_if:
  "fold (\<lambda>x (N, S). if Q x then (if R x then (insert x N, S) else (N, insert x S)) else (N, S))
      xs (N0, S0)
     = (N0 \<union> {x \<in> set xs. Q x \<and> R x}, S0 \<union> {x \<in> set xs. Q x \<and> \<not> R x})"
  by (induction xs arbitrary: N0 S0) auto

lemma split_hits_Un: "split_hits (A \<union> B) = join_hits (split_hits A) (split_hits B)"
  by (auto simp: split_hits_def join_hits_def)

lemma join_hits_assoc: "join_hits (join_hits a b) c = join_hits a (join_hits b c)"
  by (auto simp: join_hits_def)

lemma classify_call_eq:
  "classify_call called NS = join_hits NS (split_hits (match_call called {}))"
proof (cases NS)
  case (Pair N S)
  show ?thesis
    unfolding Pair classify_call_def match_call_eq fold_classify_if split_hits_def join_hits_def
    by auto
qed

lemma match_call_acc: "match_call c H = H \<union> match_call c {}"
  unfolding match_call_eq by auto

text \<open>A loop over steps that only add to the accumulator adds what it would add to the
  empty set.\<close>

lemma fold_acc:
  assumes "\<And>x H. f x H = H \<union> f x {}"
  shows "fold f xs H = H \<union> fold f xs ({}::string set)"
proof (induction xs arbitrary: H)
  case Nil show ?case by simp
next
  case (Cons x xs)
  have "fold f (x # xs) H = fold f xs (f x H)" by simp
  also have "\<dots> = f x H \<union> fold f xs {}" by (rule Cons.IH)
  also have "\<dots> = H \<union> (f x {} \<union> fold f xs {})" using assms[of x H] by blast
  also have "f x {} \<union> fold f xs {} = fold f xs (f x {})" by (rule Cons.IH[symmetric])
  finally show ?case by simp
qed

lemma fold_split:
  assumes f: "\<And>x H. f x H = H \<union> f x {}"
    and g: "\<And>x NS. g x NS = join_hits NS (split_hits (f x {}))"
  shows "fold g xs NS = join_hits NS (split_hits (fold f xs {}))"
proof (induction xs arbitrary: NS)
  case Nil show ?case by (simp add: split_hits_def join_hits_def)
next
  case (Cons x xs)
  have "fold g (x # xs) NS = fold g xs (g x NS)" by simp
  also have "\<dots> = join_hits (g x NS) (split_hits (fold f xs {}))" by (rule Cons.IH)
  also have "\<dots> = join_hits NS (join_hits (split_hits (f x {})) (split_hits (fold f xs {})))"
    by (simp add: g join_hits_assoc)
  also have "join_hits (split_hits (f x {})) (split_hits (fold f xs {}))
               = split_hits (f x {} \<union> fold f xs {})"
    by (rule split_hits_Un[symmetric])
  also have "f x {} \<union> fold f xs {} = fold f xs (f x {})"
    by (rule fold_acc[OF f, symmetric])
  finally show ?case by simp
qed

lemma fold_bounded:
  assumes "\<And>x H. H \<subseteq> U \<Longrightarrow> f x H \<subseteq> U"
  shows "H \<subseteq> U \<Longrightarrow> fold f xs H \<subseteq> (U::string set)"
proof (induction xs arbitrary: H)
  case Nil then show ?case by simp
next
  case (Cons a xs)
  have "f a H \<subseteq> U" by (rule assms[OF Cons.prems])
  then show ?case using Cons.IH by simp
qed

lemma match_method_acc: "match_method m H = H \<union> match_method m {}"
proof (cases m)
  case None then show ?thesis by (simp add: match_method_def)
next
  case (Some xs)
  show ?thesis unfolding Some match_method_def option.case
    by (rule fold_acc) (rule match_call_acc)
qed

lemma classify_method_eq:
  "classify_method m NS = join_hits NS (split_hits (match_method m {}))"
proof (cases m)
  case None then show ?thesis
    by (simp add: classify_method_def match_method_def split_hits_def join_hits_def)
next
  case (Some xs)
  show ?thesis unfolding Some classify_method_def match_method_def option.case
    by (rule fold_split) (rule match_call_acc, rule classify_call_eq)
qed

lemma match_classes_acc: "match_classes cs H = H \<union> match_classes cs {}"
proof (induction cs arbitrary: H)
  case Nil show ?case by simp
next
  case (Cons c cs)
  show ?case
  proof (cases c)
    case None then show ?thesis by simp
  next
    case (Some ms)
    have "match_classes (c # cs) H = match_classes cs (fold match_method ms H)"
      by (simp add: Some)
    also have "\<dots> = fold match_method ms H \<union> match_classes cs {}" by (rule Cons.IH)
    also have "fold match_method ms H = H \<union> fold match_method ms {}"
      by (rule fold_acc) (rule match_method_acc)
    also have "H \<union> fold match_method ms {} \<union> match_classes cs {}
                 = H \<union> (fold match_method ms {} \<union> match_classes cs {})" by blast
    also have "fold match_method ms {} \<union> match_classes cs {}
                 = match_classes cs (fold match_method ms {})"
      by (rule Cons.IH[symmetric])
    finally show ?thesis by (simp add: Some)
  qed
qed

lemma classify_classes_eq:
  "classify_classes cs NS = join_hits NS (split_hits (match_classes cs {}))"
proof (induction cs arbitrary: NS)
  case Nil show ?case by (simp add: split_hits_def join_hits_def)
next
  case (Cons c cs)
  show ?case
  proof (cases c)
    case None then show ?thesis by (simp add: split_hits_def join_hits_def)
  next
    case (Some ms)
    have "classify_classes (c # cs) NS = classify_classes cs (fold classify_method ms NS)"
      by (simp add: Some)
    also have "\<dots> = join_hits (fold classify_method ms NS) (split_hits (match_classes cs {}))"
      by (rule Cons.IH)
    also have "fold classify_method ms NS = join_hits NS (split_hits (fold match_method ms {}))"
      by (rule fold_split) (rule match_method_acc, rule classify_method_eq)
    also have "join_hits (join_hits NS (split_hits (fold match_method ms {})))
                  (split_hits (match_classes cs {}))
       = join_hits NS (split_hits (fold match_method ms {} \<union> match_classes cs {}))"
      by (simp add: join_hits_assoc split_hits_Un)
    also have "fold match_method ms {} \<union> match_classes cs {}
                 = match_classes cs (fold match_method ms {})"
      by (rule match_classes_acc[symmetric])
    finally show ?thesis by (simp add: Some)
  qed
qed

text \<open>The two sets of \<^verbatim>\<open>dynamic_features\<close> are the needles that \<^verbatim>\<open>_match_suspicious_apis\<close>
  finds, divided by the network test.\<close>

lemma classify_hits_eq: "classify_hits dx = split_hits (raw_hits dx)"
  by (cases dx)
     (simp_all add: classify_hits_def raw_hits_def classify_classes_eq split_hits_def join_hits_def)

lemma match_call_bounded:
  "H \<subseteq> set SUSPICIOUS_API_SUBSTRINGS \<Longrightarrow> match_call c H \<subseteq> set SUSPICIOUS_API_SUBSTRINGS"
  unfolding match_call_eq by auto

lemma match_method_bounded:
  assumes "H \<subseteq> set SUSPICIOUS_API_SUBSTRINGS"
  shows "match_method m H \<subseteq> set SUSPICIOUS_API_SUBSTRINGS"
proof (cases m)
  case None then show ?thesis using assms by (simp add: match_method_def)
next
  case (Some xs)
  from assms have "fold (\<lambda>s h. match_call (called_of s) h) xs H \<subseteq> set SUSPICIOUS_API_SUBSTRINGS"
    by (rule fold_bounded[rotated]) (rule match_call_bounded)
  then show ?thesis by (simp add: Some match_method_def)
qed

lemma match_classes_bounded:
  "H \<subseteq> set SUSPICIOUS_API_SUBSTRINGS \<Longrightarrow> match_classes cs H \<subseteq> set SUSPICIOUS_API_SUBSTRINGS"
proof (induction cs H rule: match_classes.induct)
  case (3 ms cs hits)
  have "fold match_method ms hits \<subseteq> set SUSPICIOUS_API_SUBSTRINGS"
    using "3.prems" by (rule fold_bounded[rotated]) (rule match_method_bounded)
  then show ?case using "3.IH" by simp
qed simp_all

lemma raw_hits_subset: "raw_hits dx \<subseteq> set SUSPICIOUS_API_SUBSTRINGS"
  unfolding raw_hits_def by (cases dx) (simp_all add: match_classes_bounded)

lemma finite_raw_hits: "finite (raw_hits dx)"
  by (rule finite_subset[OF raw_hits_subset]) simp

lemma match_suspicious_apis_set: "set (match_suspicious_apis dx) = raw_hits dx"
  unfolding match_suspicious_apis_def raw_hits_def[symmetric]
  by (simp add: finite_raw_hits)

lemma match_suspicious_apis_length: "length (match_suspicious_apis dx) = card (raw_hits dx)"
  unfolding match_suspicious_apis_def raw_hits_def[symmetric] by simp

lemma finite_split_hits:
  "finite (fst (split_hits (raw_hits dx)))" "finite (snd (split_hits (raw_hits dx)))"
  by (simp_all add: split_hits_def finite_raw_hits)

section \<open>The dynamic feature record and the endpoints on a corrupt package\<close>

lemma table_has_sms_entry: "\<exists>s \<in> set SUSPICIOUS_API_SUBSTRINGS. py_in ''SmsManager'' s"
proof
  show "py_in ''SmsManager'' ''android/telephony/SmsManager;->sendTextMessage''" by simp
  show "''android/telephony/SmsManager;->sendTextMessage'' \<in> set SUSPICIOUS_API_SUBSTRINGS"
    by (simp add: SUSPICIOUS_API_SUBSTRINGS_def)
qed

text \<open>What \<^verbatim>\<open>dynamic_features\<close> returns when the container parses.\<close>

lemma dynamic_features_parsed:
  assumes "AnalyzeAPK P content = Inr a"
  shows "dynamic_features P apk_path content =
     Logs \<lparr> apk = apk_path,
            network_calls = sorted_list_of_set (scan_urls P content),
            network_ips = sorted_list_of_set (scan_ips content),
            system_calls =
              (if snd (classify_hits (get_classes a)) \<noteq> {}
               then sorted_list_of_set (snd (classify_hits (get_classes a)))
               else sorted_list_of_set (fst (classify_hits (get_classes a)))),
            native_libs = (case get_files a of None \<Rightarrow> []
                           | Some fs \<Rightarrow> map basename (filter (\<lambda>f. endswith f ''.so'') fs)),
            sms_used = True,
            status = ''heuristic-dynamic-extraction-complete'',
            behavior_summary =
              \<lparr> n_network_calls = card (scan_urls P content),
                n_system_indicators =
                  (if card (snd (classify_hits (get_classes a))) \<noteq> 0
                   then card (snd (classify_hits (get_classes a)))
                   else card (fst (classify_hits (get_classes a)))),
                n_native_libs = length (case get_files a of None \<Rightarrow> []
                           | Some fs \<Rightarrow> map basename (filter (\<lambda>f. endswith f ''.so'') fs)) \<rparr> \<rparr>"
proof -
  have sms: "(\<exists>s \<in> N \<union> S \<union> set SUSPICIOUS_API_SUBSTRINGS. py_in ''SmsManager'' s) = True"
    for N S using table_has_sms_entry by blast
  show ?thesis
    unfolding dynamic_features_def assms sum.case Let_def split_def sms by (rule refl)
qed

lemma dynamic_features_corrupt:
  "AnalyzeAPK P content = Inl e \<Longrightarrow>
     dynamic_features P apk_path content = ErrorDict (''AnalyzeAPK failed: '' @ e)"
  by (simp add: dynamic_features_def)

lemma sample_platform_accepts: "AnalyzeAPK sample_platform ''PK'' = Inr sample_apk"
  by (simp add: sample_platform_def)

lemma sample_platform_rejects:
  "AnalyzeAPK sample_platform ''not a zip'' = Inl ''File is not a zip file''"
  by (simp add: sample_platform_def)

lemma endswith_apk: "endswith ''upload.apk'' ''.apk''"
  by (simp add: endswith_def)

text \<open>
  C10. Whenever \<^verbatim>\<open>dynamic_features\<close> returns a feature record, its \<^verbatim>\<open>sms_used\<close> flag is True,
  whatever the package: the set tested always contains the signature table, one of whose
  entries contains \<^verbatim>\<open>SmsManager\<close>. Hence the score of the dynamic endpoint is at least 0.3
  for every package that parses.
\<close>

theorem sms_used_always_true:
  "AnalyzeAPK P content = Inr a \<Longrightarrow>
     (\<exists>r. dynamic_features P apk_path content = Logs r \<and> sms_used r)
     \<and> (endswith filename ''.apk'' \<and> content \<noteq> [] \<longrightarrow>
          (\<exists>resp. analyze_dynamic P tmp filename content = Inr resp
                  \<and> 0.3 \<le> risk_score resp))"
proof (intro conjI impI)
  assume parsed: "AnalyzeAPK P content = Inr a"
  show "\<exists>r. dynamic_features P apk_path content = Logs r \<and> sms_used r"
    by (simp add: dynamic_features_parsed[OF parsed])
  assume "endswith filename ''.apk'' \<and> content \<noteq> []"
  then show "\<exists>resp. analyze_dynamic P tmp filename content = Inr resp \<and> 0.3 \<le> risk_score resp"
    by (simp add: analyze_dynamic_def analyze_dynamic_features_def
          dynamic_features_parsed[OF parsed] Let_def min_def)
qed

theorem sms_used_always_true_witness:
  "AnalyzeAPK sample_platform ''PK'' = Inr sample_apk
   \<and> endswith ''upload.apk'' ''.apk'' \<and> ''PK'' \<noteq> []
   \<and> get_sms_used (dynamic_features sample_platform ''/tmp/upload.apk'' ''PK'')
   \<and> (case analyze_dynamic sample_platform ''/tmp/upload.apk'' ''upload.apk'' ''PK'' of
         Inl err \<Rightarrow> False | Inr resp \<Rightarrow> 0.3 \<le> risk_score resp)"
proof -
  note inst = sms_used_always_true[OF sample_platform_accepts,
      of "''/tmp/upload.apk''" "''upload.apk''" "''/tmp/upload.apk''"]
  from inst obtain r where r: "dynamic_features sample_platform ''/tmp/upload.apk'' ''PK'' = Logs r"
    "sms_used r" by blast
  have "endswith ''upload.apk'' ''.apk'' \<and> ''PK'' \<noteq> []" by (simp add: endswith_apk)
  with inst obtain resp where
    "analyze_dynamic sample_platform ''/tmp/upload.apk'' ''upload.apk'' ''PK'' = Inr resp"
    "0.3 \<le> risk_score resp" by blast
  with r show ?thesis by (simp add: sample_platform_accepts endswith_apk)
qed

text \<open>
  C1. On bytes that the container parser rejects, the static and the hybrid endpoint fail
  with status 500 and the parser's message, and return nothing else. The dynamic endpoint
  does not fail: \<^verbatim>\<open>dynamic_features\<close> turns the parser's exception into the dictionary
  \<^verbatim>\<open>{"error": ...}\<close>, the endpoint reads its missing keys as empty, and answers with the
  verdict benign, risk score 0 and the action "Safe to use".
\<close>

lemma corrupt_static_fails:
  "endswith filename ''.apk'' \<Longrightarrow> content \<noteq> [] \<Longrightarrow> AnalyzeAPK P content = Inl e \<Longrightarrow>
     analyze_static P tmp filename content
       = Inl (HTTPException 500 (''Static analysis failed: '' @ e))"
  by (simp add: analyze_static_def extract_static_features_def static_features_def)

lemma corrupt_hybrid_fails:
  "endswith filename ''.apk'' \<Longrightarrow> content \<noteq> [] \<Longrightarrow> AnalyzeAPK P content = Inl e \<Longrightarrow>
     analyze_hybrid P MODEL tmp filename content
       = Inl (HTTPException 500 (''Hybrid analysis failed: '' @ e))"
  by (simp add: analyze_hybrid_def extract_static_features_def static_features_def)

lemma corrupt_dynamic_answers_benign:
  "endswith filename ''.apk'' \<Longrightarrow> content \<noteq> [] \<Longrightarrow> AnalyzeAPK P content = Inl e \<Longrightarrow>
     analyze_dynamic P tmp filename content
       = Inr \<lparr> analysis_type = ''dynamic'', verdict = ''benign'', risk_score = 0,
               recommended_action = ''Safe to use'',
               logs = ErrorDict (''AnalyzeAPK failed: '' @ e) \<rparr>"
  by (simp add: analyze_dynamic_def analyze_dynamic_features_def dynamic_features_corrupt
        score_verdict_def determine_action_def lower_def lower_char_def)

theorem corrupt_package_dynamic_verdict:
  "analyze_dynamic sample_platform ''/tmp/upload.apk'' ''upload.apk'' ''not a zip''
     = Inr \<lparr> analysis_type = ''dynamic'', verdict = ''benign'', risk_score = 0,
             recommended_action = ''Safe to use'',
             logs = ErrorDict ''AnalyzeAPK failed: File is not a zip file'' \<rparr>
   \<and> analyze_static sample_platform ''/tmp/upload.apk'' ''upload.apk'' ''not a zip''
     = Inl (HTTPException 500 ''Static analysis failed: File is not a zip file'')
   \<and> analyze_hybrid sample_platform None ''/tmp/upload.apk'' ''upload.apk'' ''not a zip''
     = Inl (HTTPException 500 ''Hybrid analysis failed: File is not a zip file'')"
  using corrupt_dynamic_answers_benign[OF endswith_apk _ sample_platform_rejects]
    corrupt_static_fails[OF endswith_apk _ sample_platform_rejects]
    corrupt_hybrid_fails[OF endswith_apk _ sample_platform_rejects]
  by simp

section \<open>Hit sets, Policy A and the permission count of Policy B\<close>

lemma sample_raw_hits:
  "raw_hits (get_classes sample_apk)
     = {''java/net/HttpURLConnection;->connect'', ''okhttp3/OkHttpClient;->newCall''}"
  by (simp add: raw_hits_def sample_apk_def match_method_def match_call_def called_of_def
        SUSPICIOUS_API_SUBSTRINGS_def insert_commute)

lemma sample_classify_hits:
  "classify_hits (get_classes sample_apk)
     = ({''java/net/HttpURLConnection;->connect'', ''okhttp3/OkHttpClient;->newCall''}, {})"
  by (simp add: classify_hits_def sample_apk_def classify_method_def classify_call_def
        called_of_def SUSPICIOUS_API_SUBSTRINGS_def is_network_needle_def insert_commute)

lemma sample_static_hits: "length (match_suspicious_apis (get_classes sample_apk)) = 2"
  by (simp add: match_suspicious_apis_length sample_raw_hits)

lemma system_calls_set:
  assumes "AnalyzeAPK P content = Inr a"
  shows "set (get_system_calls (dynamic_features P apk_path content))
     = (if snd (classify_hits (get_classes a)) \<noteq> {} then snd (classify_hits (get_classes a))
        else fst (classify_hits (get_classes a)))"
  using finite_split_hits[of "get_classes a"]
  by (simp add: dynamic_features_parsed[OF assms] classify_hits_eq)

text \<open>
  C4, as the code has it. The two sets \<^verbatim>\<open>net_hits\<close> and \<^verbatim>\<open>sys_hits\<close> that
  \<^verbatim>\<open>dynamic_features\<close> computes are disjoint, together they are exactly the matched hit
  set, \<^verbatim>\<open>net_hits\<close> holds its network-related needles and \<^verbatim>\<open>sys_hits\<close> all the others. The
  record does not report the two sets as such: its \<^verbatim>\<open>system_calls\<close> field is the sorted
  \<^verbatim>\<open>sys_hits\<close> when that set is not empty, and the sorted \<^verbatim>\<open>net_hits\<close> otherwise.
\<close>

theorem hit_sets_partition:
  assumes "AnalyzeAPK P content = Inr a"
    and "classify_hits (get_classes a) = (net_hits, sys_hits)"
  shows "net_hits \<inter> sys_hits = {}
     \<and> net_hits \<union> sys_hits = set (match_suspicious_apis (get_classes a))
     \<and> net_hits = {n \<in> set (match_suspicious_apis (get_classes a)). is_network_needle n}
     \<and> sys_hits = {n \<in> set (match_suspicious_apis (get_classes a)). \<not> is_network_needle n}
     \<and> (\<exists>r. dynamic_features P apk_path content = Logs r
            \<and> system_calls r = (if sys_hits \<noteq> {} then sorted_list_of_set sys_hits
                                 else sorted_list_of_set net_hits))"
proof -
  have split: "(net_hits, sys_hits) = split_hits (raw_hits (get_classes a))"
    using assms(2) by (simp add: classify_hits_eq)
  have net: "net_hits = {n \<in> raw_hits (get_classes a). is_network_needle n}"
    and sys: "sys_hits = {n \<in> raw_hits (get_classes a). \<not> is_network_needle n}"
    using split by (auto simp: split_hits_def)
  have "net_hits \<inter> sys_hits = {}" using net sys by blast
  moreover have "net_hits \<union> sys_hits = set (match_suspicious_apis (get_classes a))"
    unfolding match_suspicious_apis_set using net sys by blast
  moreover have "\<exists>r. dynamic_features P apk_path content = Logs r
            \<and> system_calls r = (if sys_hits \<noteq> {} then sorted_list_of_set sys_hits
                                 else sorted_list_of_set net_hits)"
    by (simp add: dynamic_features_parsed[OF assms(1)] assms(2))
  ultimately show ?thesis
    using net sys by (simp add: match_suspicious_apis_set)
qed

theorem hit_sets_partition_witness:
  "AnalyzeAPK sample_platform ''PK'' = Inr sample_apk
   \<and> classify_hits (get_classes sample_apk)
       = ({''java/net/HttpURLConnection;->connect'', ''okhttp3/OkHttpClient;->newCall''}, {})
   \<and> {''java/net/HttpURLConnection;->connect'', ''okhttp3/OkHttpClient;->newCall''} \<union> {}
       = set (match_suspicious_apis (get_classes sample_apk))
   \<and> (\<exists>r. dynamic_features sample_platform ''/tmp/upload.apk'' ''PK'' = Logs r
          \<and> system_calls r = sorted_list_of_set
               {''java/net/HttpURLConnection;->connect'', ''okhttp3/OkHttpClient;->newCall''})"
proof -
  note inst = hit_sets_partition[OF sample_platform_accepts sample_classify_hits,
      of "''/tmp/upload.apk''"]
  have e: "(if ({}::string set) \<noteq> {} then sorted_list_of_set ({}::string set)
            else sorted_list_of_set
               {''java/net/HttpURLConnection;->connect'', ''okhttp3/OkHttpClient;->newCall''})
     = sorted_list_of_set
               {''java/net/HttpURLConnection;->connect'', ''okhttp3/OkHttpClient;->newCall''}"
    by (simp only: simp_thms if_False)
  from inst[unfolded e] have
    "{''java/net/HttpURLConnection;->connect'', ''okhttp3/OkHttpClient;->newCall''} \<union> {}
       = set (match_suspicious_apis (get_classes sample_apk))"
    and "\<exists>r. dynamic_features sample_platform ''/tmp/upload.apk'' ''PK'' = Logs r
          \<and> system_calls r = sorted_list_of_set
               {''java/net/HttpURLConnection;->connect'', ''okhttp3/OkHttpClient;->newCall''}"
    by (rule conjunct1[OF conjunct2], rule conjunct2[OF conjunct2[OF conjunct2[OF conjunct2]]])
  with sample_platform_accepts sample_classify_hits show ?thesis
    by (intro conjI)
qed

text \<open>C4 as stated fails on the sample package: none of its needles is system-related,
  and the reported \<^verbatim>\<open>system_calls\<close> are its two network-related needles.\<close>

theorem system_calls_holds_network_needles:
  "set (get_system_calls (dynamic_features sample_platform ''/tmp/upload.apk'' ''PK''))
     = {''java/net/HttpURLConnection;->connect'', ''okhttp3/OkHttpClient;->newCall''}
   \<and> is_network_needle ''java/net/HttpURLConnection;->connect''
   \<and> is_network_needle ''okhttp3/OkHttpClient;->newCall''"
  by (simp add: system_calls_set[OF sample_platform_accepts] sample_classify_hits
        is_network_needle_def)

text \<open>
  C3, as the code has it. The count of Policy A is the number of static suspicious-API hits
  plus \<^verbatim>\<open>n_system_indicators\<close>, which is the number of system-related hits when there is
  one, and the number of network-related hits otherwise. The count is mapped by inclusive
  upper bounds 2, 4, 6, 9 to benign/0.10, adware/0.35, spyware/0.55, trojan/0.75 and above
  9 to ransomware/0.90; counts 0, 5 and 10 give benign, spyware and ransomware.
\<close>

theorem policy_a_count_and_buckets:
  assumes "AnalyzeAPK P content = Inr a"
    and "classify_hits (get_classes a) = (net_hits, sys_hits)"
  shows "(\<exists>r n. hybrid_features P apk_path content = Inr r
            \<and> n = length (match_suspicious_apis (get_classes a))
                    + (if sys_hits \<noteq> {} then card sys_hits else card net_hits)
            \<and> (n \<le> 2 \<longrightarrow> hf_verdict r = ''benign'' \<and> hf_risk_score r = 0.10)
            \<and> (2 < n \<and> n \<le> 4 \<longrightarrow> hf_verdict r = ''adware'' \<and> hf_risk_score r = 0.35)
            \<and> (4 < n \<and> n \<le> 6 \<longrightarrow> hf_verdict r = ''spyware'' \<and> hf_risk_score r = 0.55)
            \<and> (6 < n \<and> n \<le> 9 \<longrightarrow> hf_verdict r = ''trojan'' \<and> hf_risk_score r = 0.75)
            \<and> (9 < n \<longrightarrow> hf_verdict r = ''ransomware'' \<and> hf_risk_score r = 0.90))
     \<and> bucket 0 = (0.10, ''benign'') \<and> bucket 5 = (0.55, ''spyware'')
     \<and> bucket 10 = (0.90, ''ransomware'')"
proof -
  define n where "n = length (match_suspicious_apis (get_classes a))
                    + (if sys_hits \<noteq> {} then card sys_hits else card net_hits)"
  have fin: "finite sys_hits"
    using finite_split_hits(2)[of "get_classes a"] assms(2) by (simp add: classify_hits_eq)
  have "get_n_system_indicators (dynamic_features P apk_path content)
      = (if sys_hits \<noteq> {} then card sys_hits else card net_hits)"
    using fin by (simp add: dynamic_features_parsed[OF assms(1)] assms(2))
  then have count: "suspicious_count s (dynamic_features P apk_path content)
      = length (suspicious_apis s) + (if sys_hits \<noteq> {} then card sys_hits else card net_hits)"
    for s
    by (simp only: suspicious_count_def)
  have "\<exists>r. hybrid_features P apk_path content = Inr r
     \<and> hf_risk_score r = fst (bucket n) \<and> hf_verdict r = snd (bucket n)"
    unfolding n_def
    by (simp add: hybrid_features_def static_features_def assms(1) count Let_def split_def)
  then obtain r where r: "hybrid_features P apk_path content = Inr r"
    and score: "hf_risk_score r = fst (bucket n)" and verd: "hf_verdict r = snd (bucket n)"
    by blast
  have "n \<le> 2 \<longrightarrow> hf_verdict r = ''benign'' \<and> hf_risk_score r = 0.10"
    by (simp add: score verd bucket_def)
  moreover have "2 < n \<and> n \<le> 4 \<longrightarrow> hf_verdict r = ''adware'' \<and> hf_risk_score r = 0.35"
    by (simp add: score verd bucket_def)
  moreover have "4 < n \<and> n \<le> 6 \<longrightarrow> hf_verdict r = ''spyware'' \<and> hf_risk_score r = 0.55"
    by (simp add: score verd bucket_def)
  moreover have "6 < n \<and> n \<le> 9 \<longrightarrow> hf_verdict r = ''trojan'' \<and> hf_risk_score r = 0.75"
    by (simp add: score verd bucket_def)
  moreover have "9 < n \<longrightarrow> hf_verdict r = ''ransomware'' \<and> hf_risk_score r = 0.90"
    by (simp add: score verd bucket_def)
  moreover have "bucket 0 = (0.10, ''benign'') \<and> bucket 5 = (0.55, ''spyware'')
     \<and> bucket 10 = (0.90, ''ransomware'')"
    by (simp add: bucket_def)
  ultimately show ?thesis
    using r n_def by blast
qed

theorem policy_a_count_and_buckets_witness:
  "AnalyzeAPK sample_platform ''PK'' = Inr sample_apk
   \<and> classify_hits (get_classes sample_apk)
       = ({''java/net/HttpURLConnection;->connect'', ''okhttp3/OkHttpClient;->newCall''}, {})
   \<and> hf_outcome (hybrid_features sample_platform ''/tmp/upload.apk'' ''PK'')
       = Some (''adware'', 0.35)"
proof -
  note inst = policy_a_count_and_buckets[OF sample_platform_accepts sample_classify_hits,
      of "''/tmp/upload.apk''"]
  have "length (match_suspicious_apis (get_classes sample_apk))
          + (if ({}::string set) \<noteq> {} then card ({}::string set)
             else card {''java/net/HttpURLConnection;->connect'',
                        ''okhttp3/OkHttpClient;->newCall''}) = 4"
    by (simp add: sample_static_hits)
  with inst obtain r where "hybrid_features sample_platform ''/tmp/upload.apk'' ''PK'' = Inr r"
    "hf_verdict r = ''adware''" "hf_risk_score r = 0.35"
    by auto
  then show ?thesis by (simp add: sample_platform_accepts sample_classify_hits)
qed

text \<open>The claim, as stated, fails on the sample package: it has two static hits and no
  system-related hit, so the claimed count is 2 (benign, 0.10); the code counts the two
  network-related hits again and answers adware, 0.35.\<close>

theorem policy_a_counts_network_hits:
  "length (match_suspicious_apis (get_classes sample_apk)) = 2
   \<and> snd (classify_hits (get_classes sample_apk)) = {}
   \<and> bucket (2 + 0) = (0.10, ''benign'')
   \<and> hf_outcome (hybrid_features sample_platform ''/tmp/upload.apk'' ''PK'')
       = Some (''adware'', 0.35)"
  by (simp add: hybrid_features_def static_features_def sample_platform_accepts
        dynamic_features_parsed sample_classify_hits suspicious_count_def
        sample_static_hits bucket_def)

section \<open>The permission count of Policy B\<close>

lemma n_dangerous_perms_card:
  assumes "distinct perms"
  shows "n_dangerous_perms perms
     = card {p \<in> set perms. \<exists>x \<in> set perm_keywords. sublist x p}"
proof -
  have "n_dangerous_perms perms
      = length (filter (\<lambda>p. \<exists>x \<in> set perm_keywords. sublist x p) perms)"
    by (simp add: n_dangerous_perms_def list_ex_iff py_in_sublist)
  also have "\<dots> = card ({p. \<exists>x \<in> set perm_keywords. sublist x p} \<inter> set perms)"
    using assms by (rule distinct_length_filter)
  also have "{p. \<exists>x \<in> set perm_keywords. sublist x p} \<inter> set perms
      = {p \<in> set perms. \<exists>x \<in> set perm_keywords. sublist x p}"
    by blast
  finally show ?thesis .
qed

lemma static_features_parsed:
  assumes "AnalyzeAPK P content = Inr a"
  shows "\<exists>feats. static_features P content = Inr feats
     \<and> set (permissions feats) = set (get_permissions a) \<and> distinct (permissions feats)
     \<and> suspicious_apis feats = match_suspicious_apis (get_classes a)
     \<and> set (intents feats)
         = set (case get_intent_filters a of None \<Rightarrow> [] | Some fs \<Rightarrow> concat fs)"
  by (cases "get_intent_filters a") (simp_all add: static_features_def assms)

text \<open>
  C2, as the code has it. The dangerous-permission count of the static endpoint is the
  number of distinct extracted permissions whose text contains one of the five keywords
  SMS, CALL, INTERNET, RECORD_AUDIO, CAMERA; the 15-entry catalog is not consulted. The
  score is 0.20 times that count plus 0.15 times the number of suspicious APIs, capped at 1.
\<close>

theorem static_endpoint_permission_count:
  assumes "AnalyzeAPK P content = Inr a"
    and "endswith filename ''.apk''" and "content \<noteq> []"
  shows "\<exists>resp. analyze_static P tmp filename content = Inr resp
     \<and> risk_score resp
         = min 1 (0.20 * real (card {p \<in> set (get_permissions a).
                      \<exists>x \<in> {''SMS'', ''CALL'', ''INTERNET'', ''RECORD_AUDIO'', ''CAMERA''}.
                         sublist x p})
                  + 0.15 * real (length (match_suspicious_apis (get_classes a))))"
proof -
  from static_features_parsed[OF assms(1)] obtain feats where
    feats: "static_features P content = Inr feats"
    and perms: "set (permissions feats) = set (get_permissions a)" "distinct (permissions feats)"
    and apis: "suspicious_apis feats = match_suspicious_apis (get_classes a)"
    by blast
  have kw: "set perm_keywords = {''SMS'', ''CALL'', ''INTERNET'', ''RECORD_AUDIO'', ''CAMERA''}"
    by (simp add: perm_keywords_def)
  have "n_dangerous_perms (permissions feats)
      = card {p \<in> set (get_permissions a).
                \<exists>x \<in> {''SMS'', ''CALL'', ''INTERNET'', ''RECORD_AUDIO'', ''CAMERA''}.
                   sublist x p}"
    unfolding n_dangerous_perms_card[OF perms(2)] perms(1) kw by (rule refl)
  then show ?thesis
    using assms(2,3)
    by (simp add: analyze_static_def extract_static_features_def feats apis Let_def)
qed

lemma sample_keyword_perms:
  "{p \<in> set (get_permissions sample_apk).
      \<exists>x \<in> {''SMS'', ''CALL'', ''INTERNET'', ''RECORD_AUDIO'', ''CAMERA''}. sublist x p}
   = {''android.permission.INTERNET'', ''android.permission.SEND_SMS''}"
proof -
  have "sublist ''INTERNET'' ''android.permission.INTERNET''"
    and "sublist ''SMS'' ''android.permission.SEND_SMS''"
    by (simp_all add: py_in_sublist[symmetric])
  moreover have "set (get_permissions sample_apk)
     = {''android.permission.INTERNET'', ''android.permission.SEND_SMS''}"
    by (simp add: sample_apk_def)
  ultimately show ?thesis by blast
qed

theorem static_endpoint_permission_count_witness:
  "AnalyzeAPK sample_platform ''PK'' = Inr sample_apk
   \<and> endswith ''upload.apk'' ''.apk'' \<and> ''PK'' \<noteq> []
   \<and> map_option snd (outcome (analyze_static sample_platform ''/tmp/upload.apk''
                                   ''upload.apk'' ''PK'')) = Some 0.7"
proof -
  have ne: "''PK'' \<noteq> []" by simp
  note inst = static_endpoint_permission_count[OF sample_platform_accepts endswith_apk ne,
      of "''/tmp/upload.apk''"]
  have "card {''android.permission.INTERNET'', ''android.permission.SEND_SMS''} = 2"
    by simp
  with inst obtain resp where
    "analyze_static sample_platform ''/tmp/upload.apk'' ''upload.apk'' ''PK'' = Inr resp"
    "risk_score resp = 0.7"
    unfolding sample_keyword_perms sample_static_hits by auto
  then show ?thesis by (simp add: sample_platform_accepts endswith_apk)
qed

text \<open>
  C2 as stated fails on the sample package, whose permissions are INTERNET and SEND_SMS:
  the endpoint counts both (score 0.2 * 2 + 0.15 * 2 = 0.7), the catalog holds only one of
  them (which would give 0.5).
\<close>

theorem keyword_count_differs_from_catalog:
  "get_permissions sample_apk = [''android.permission.INTERNET'', ''android.permission.SEND_SMS'']
   \<and> n_dangerous_perms [''android.permission.INTERNET'', ''android.permission.SEND_SMS''] = 2
   \<and> card (set [''android.permission.INTERNET'', ''android.permission.SEND_SMS'']
            \<inter> set DANGEROUS_PERMISSIONS) = 1
   \<and> outcome (analyze_static sample_platform ''/tmp/upload.apk'' ''upload.apk'' ''PK'')
       = Some (''trojan'', 0.7)"
proof (intro conjI)
  show "get_permissions sample_apk
      = [''android.permission.INTERNET'', ''android.permission.SEND_SMS'']"
    by (simp add: sample_apk_def)
  show "n_dangerous_perms [''android.permission.INTERNET'', ''android.permission.SEND_SMS''] = 2"
    by (simp add: n_dangerous_perms_def perm_keywords_def)
  show "card (set [''android.permission.INTERNET'', ''android.permission.SEND_SMS'']
            \<inter> set DANGEROUS_PERMISSIONS) = 1"
    by (simp add: DANGEROUS_PERMISSIONS_def)
  show "outcome (analyze_static sample_platform ''/tmp/upload.apk'' ''upload.apk'' ''PK'')
       = Some (''trojan'', 0.7)"
    apply (simp add: analyze_static_def endswith_def extract_static_features_def
        static_features_def sample_platform_def match_suspicious_apis_length
        sample_raw_hits Let_def)
    apply (simp add: sample_apk_def n_dangerous_perms_def perm_keywords_def score_verdict_def)
    done
qed

section \<open>Policy C\<close>

lemma catalog_size: "card (set DANGEROUS_PERMISSIONS) = 15"
  by (simp add: DANGEROUS_PERMISSIONS_def)

lemma signature_list_size: "length SUSPICIOUS_APIS = 5"
  by (simp add: SUSPICIOUS_APIS_def)

lemma static_score_risk:
  "fst (static_score feats)
     = max 0 (min 1
         (0.5 * (real (card (set (permissions feats) \<inter> set DANGEROUS_PERMISSIONS)) / 15)
          + 0.3 * (real (card (set (suspicious_apis feats))) / 5)
          + 0.2 * (if \<exists>s \<in> set (intents feats). sublist ''BOOT_COMPLETED'' s then 1 else 0)))"
  by (simp add: static_score_def Let_def catalog_size signature_list_size py_in_sublist)

lemma static_score_verdict:
  "snd (static_score feats) = verdict3 0.70 0.40 (fst (static_score feats))"
  by (simp only: static_score_def Let_def verdict3_def fst_conv snd_conv)

lemma dynamic_score_verdict:
  "snd (dynamic_score lg) = verdict3 0.65 0.35 (fst (dynamic_score lg))"
  by (simp only: dynamic_score_def Let_def verdict3_def fst_conv snd_conv)

lemma hybrid_score_verdict:
  "snd (hybrid_score feats lg) = verdict3 0.70 0.40 (fst (hybrid_score feats lg))"
  by (simp only: hybrid_score_def Let_def verdict3_def split_def fst_conv snd_conv)

lemma static_score_range: "0 \<le> fst (static_score feats) \<and> fst (static_score feats) \<le> 1"
  by (simp only: static_score_def Let_def fst_conv) simp


lemma hybrid_score_risk:
  "fst (hybrid_score feats lg)
     = (case lg of None \<Rightarrow> fst (static_score feats)
        | Some d \<Rightarrow> if dict_truthy d
                     then (fst (static_score feats) + fst (dynamic_score d)) / 2
                     else fst (static_score feats))"
  by (simp add: hybrid_score_def Let_def split_def)


text \<open>
  C6. The static scorer of Policy C returns
  0.5 * (catalog permissions held / 15) + 0.3 * (distinct suspicious APIs / 5)
  + 0.2 * (1 if an intent key contains BOOT_COMPLETED, else 0), clamped to [0, 1], where 15
  and 5 are the sizes of the catalog and of the signature list of \<^verbatim>\<open>risk_model.py\<close>. The
  verdict is malicious from 0.70, suspicious from 0.40 and below 0.70, benign below 0.40.
  Without any catalog permission, suspicious API and boot intent the score is 0 and the
  verdict benign.
\<close>

theorem static_score_formula:
  "card (set DANGEROUS_PERMISSIONS) = 15 \<and> length SUSPICIOUS_APIS = 5
   \<and> fst (static_score feats)
     = max 0 (min 1
         (0.5 * (real (card (set (permissions feats) \<inter> set DANGEROUS_PERMISSIONS)) / 15)
          + 0.3 * (real (card (set (suspicious_apis feats))) / 5)
          + 0.2 * (if \<exists>s \<in> set (intents feats). sublist ''BOOT_COMPLETED'' s then 1 else 0)))
   \<and> 0 \<le> fst (static_score feats) \<and> fst (static_score feats) \<le> 1
   \<and> (snd (static_score feats) = ''malicious'' \<longleftrightarrow> 0.70 \<le> fst (static_score feats))
   \<and> (snd (static_score feats) = ''suspicious''
        \<longleftrightarrow> 0.40 \<le> fst (static_score feats) \<and> fst (static_score feats) < 0.70)
   \<and> (snd (static_score feats) = ''benign'' \<longleftrightarrow> fst (static_score feats) < 0.40)
   \<and> (set (permissions feats) \<inter> set DANGEROUS_PERMISSIONS = {}
        \<and> suspicious_apis feats = []
        \<and> \<not> (\<exists>s \<in> set (intents feats). sublist ''BOOT_COMPLETED'' s)
       \<longrightarrow> static_score feats = (0, ''benign''))"
proof -
  have zero: "static_score feats = (0, ''benign'')"
    if "set (permissions feats) \<inter> set DANGEROUS_PERMISSIONS = {}"
      "suspicious_apis feats = []"
      "\<not> (\<exists>s \<in> set (intents feats). sublist ''BOOT_COMPLETED'' s)"
  proof -
    have "fst (static_score feats) = 0" using that by (simp add: static_score_risk)
    moreover from this have "snd (static_score feats) = ''benign''"
      by (simp add: static_score_verdict verdict3_def)
    ultimately show ?thesis by (simp add: prod_eq_iff)
  qed
  have verdicts:
    "(snd (static_score feats) = ''malicious'' \<longleftrightarrow> 0.70 \<le> fst (static_score feats))
   \<and> (snd (static_score feats) = ''suspicious''
        \<longleftrightarrow> 0.40 \<le> fst (static_score feats) \<and> fst (static_score feats) < 0.70)
   \<and> (snd (static_score feats) = ''benign'' \<longleftrightarrow> fst (static_score feats) < 0.40)"
    unfolding static_score_verdict verdict3_def by auto
  show ?thesis
    using catalog_size signature_list_size static_score_risk[of feats]
      static_score_range[of feats] verdicts zero
    by blast
qed

theorem static_score_formula_witness:
  "set (permissions empty_feats) \<inter> set DANGEROUS_PERMISSIONS = {}
   \<and> suspicious_apis empty_feats = []
   \<and> \<not> (\<exists>s \<in> set (intents empty_feats). sublist ''BOOT_COMPLETED'' s)
   \<and> static_score empty_feats = (0, ''benign'')"
proof -
  have h: "set (permissions empty_feats) \<inter> set DANGEROUS_PERMISSIONS = {}
     \<and> suspicious_apis empty_feats = []
     \<and> \<not> (\<exists>s \<in> set (intents empty_feats). sublist ''BOOT_COMPLETED'' s)"
    by (simp add: empty_feats_def)
  with static_score_formula[of empty_feats] show ?thesis by blast
qed

text \<open>
  C7. The hybrid scorer of Policy C returns the arithmetic mean of the static and the
  dynamic sub-score when dynamic logs are supplied (a dictionary that Python counts as
  true, that is one with at least one key), and the static sub-score alone otherwise
  (\<^verbatim>\<open>None\<close> or the empty dictionary). Its verdict uses the thresholds 0.70 and 0.40 of the
  static scorer; the dynamic-only scorer uses 0.65 and 0.35.
\<close>

theorem hybrid_score_mean:
  "(dict_truthy d \<longrightarrow>
      fst (hybrid_score feats (Some d))
        = (fst (static_score feats) + fst (dynamic_score d)) / 2)
   \<and> (\<not> dict_truthy d \<longrightarrow> fst (hybrid_score feats (Some d)) = fst (static_score feats))
   \<and> fst (hybrid_score feats None) = fst (static_score feats)
   \<and> snd (hybrid_score feats lg)
       = (if fst (hybrid_score feats lg) \<ge> 0.70 then ''malicious''
          else if fst (hybrid_score feats lg) \<ge> 0.40 then ''suspicious'' else ''benign'')
   \<and> snd (static_score feats)
       = (if fst (static_score feats) \<ge> 0.70 then ''malicious''
          else if fst (static_score feats) \<ge> 0.40 then ''suspicious'' else ''benign'')
   \<and> snd (dynamic_score d)
       = (if fst (dynamic_score d) \<ge> 0.65 then ''malicious''
          else if fst (dynamic_score d) \<ge> 0.35 then ''suspicious'' else ''benign'')"
  using hybrid_score_verdict[of feats lg] static_score_verdict[of feats]
    dynamic_score_verdict[of d]
  by (simp add: hybrid_score_risk verdict3_def)

lemma sms_feats_score: "static_score sms_feats = (1 / 30, ''benign'')"
  by (simp add: static_score_def Let_def sms_feats_def empty_feats_def
        DANGEROUS_PERMISSIONS_def SUSPICIOUS_APIS_def)

lemma sample_logs_score: "dynamic_score sample_logs = (7 / 25, ''benign'')"
  by (simp add: dynamic_score_def Let_def sample_logs_def NETWORK_INDICATORS_def
        suspicious_sys_def)

theorem hybrid_score_mean_witness:
  "dict_truthy sample_logs \<and> \<not> dict_truthy empty_logs
   \<and> fst (hybrid_score sms_feats (Some sample_logs)) = (1 / 30 + 7 / 25) / 2
   \<and> fst (hybrid_score sms_feats (Some empty_logs)) = 1 / 30"
proof -
  have t: "dict_truthy sample_logs" by (simp add: dict_truthy_def sample_logs_def)
  have f: "\<not> dict_truthy empty_logs" by (simp add: dict_truthy_def empty_logs_def)
  from t hybrid_score_mean[of sample_logs sms_feats]
  have "fst (hybrid_score sms_feats (Some sample_logs))
      = (fst (static_score sms_feats) + fst (dynamic_score sample_logs)) / 2"
    by blast
  moreover from f hybrid_score_mean[of empty_logs sms_feats]
  have "fst (hybrid_score sms_feats (Some empty_logs)) = fst (static_score sms_feats)"
    by blast
  ultimately show ?thesis using t f by (simp add: sms_feats_score sample_logs_score)
qed

section \<open>The hybrid endpoint and the classifier override\<close>

lemma network_calls_count:
  assumes "AnalyzeAPK P content = Inr a"
  shows "length (get_network_calls (dynamic_features P tmp content)) = card (scan_urls P content)"
  by (simp add: dynamic_features_parsed[OF assms])

lemma system_calls_count:
  assumes "AnalyzeAPK P content = Inr a"
  shows "length (get_system_calls (dynamic_features P tmp content))
     = (if snd (classify_hits (get_classes a)) \<noteq> {} then card (snd (classify_hits (get_classes a)))
        else card (fst (classify_hits (get_classes a))))"
  by (simp add: dynamic_features_parsed[OF assms])

lemma extract_vector_parsed:
  assumes "AnalyzeAPK P content = Inr a" and "static_features P content = Inr feats"
  shows "extract_vector feats (dynamic_features P tmp content)
     = [card (set (get_permissions a) \<inter> set DANGEROUS_PERMISSIONS),
        length (match_suspicious_apis (get_classes a)),
        card (scan_urls P content),
        card (set (get_system_calls (dynamic_features P tmp content)) \<inter> set suspicious_sys),
        (if \<exists>s \<in> set (case get_intent_filters a of None \<Rightarrow> [] | Some fs \<Rightarrow> concat fs).
              sublist ''BOOT_COMPLETED'' s then 1 else 0)]"
proof -
  from static_features_parsed[OF assms(1)] assms(2) have
    perms: "set (permissions feats) = set (get_permissions a)"
    and apis: "suspicious_apis feats = match_suspicious_apis (get_classes a)"
    and ints: "set (intents feats)
         = set (case get_intent_filters a of None \<Rightarrow> [] | Some fs \<Rightarrow> concat fs)"
    by auto
  show ?thesis
    unfolding extract_vector_def Let_def perms apis ints network_calls_count[OF assms(1)]
      py_in_sublist
    by (rule refl)
qed

text \<open>The response of the hybrid endpoint for a package that parses.\<close>

lemma analyze_hybrid_parsed:
  assumes "AnalyzeAPK P content = Inr a"
    and "endswith filename ''.apk''" and "content \<noteq> []"
  shows "\<exists>resp feats. static_features P content = Inr feats
     \<and> analyze_hybrid P MODEL tmp filename content = Inr resp
     \<and> risk_score resp
         = (case MODEL of
              Some clf \<Rightarrow> clf (extract_vector feats (dynamic_features P tmp content))
            | None \<Rightarrow>
                min 1 (0.15 * real (n_dangerous_perms (permissions feats))
                       + 0.15 * real (length (suspicious_apis feats))
                       + 0.2 * real (length (get_network_calls (dynamic_features P tmp content)))
                       + 0.2 * real (length (get_system_calls (dynamic_features P tmp content)))
                       + (if get_sms_used (dynamic_features P tmp content) then 0.2 else 0)))
     \<and> verdict resp = score_verdict (risk_score resp)"
proof -
  from static_features_parsed[OF assms(1)] obtain feats where
    feats: "static_features P content = Inr feats" by blast
  show ?thesis
    unfolding analyze_hybrid_def extract_static_features_def analyze_dynamic_features_def
      feats Let_def
    using assms(2,3) by (simp only: if_False simp_thms sum.case) simp
qed

text \<open>
  C5. With a classifier loaded, the hybrid endpoint builds the vector
  [catalog permissions held, suspicious APIs, network calls (URLs found),
  reported system calls that are in \{execve, chmod, chown, ptrace, kill\},
  boot-receiver flag], and the probability the classifier returns for it is the risk score;
  the verdict is read off the four thresholds of Policy B.
\<close>

theorem classifier_override:
  assumes "AnalyzeAPK P content = Inr a"
    and "endswith filename ''.apk''" and "content \<noteq> []"
  shows "\<exists>resp. analyze_hybrid P (Some clf) tmp filename content = Inr resp
     \<and> risk_score resp
         = clf [card (set (get_permissions a) \<inter> set DANGEROUS_PERMISSIONS),
                length (match_suspicious_apis (get_classes a)),
                card (scan_urls P content),
                card (set (get_system_calls (dynamic_features P tmp content))
                      \<inter> {''execve'', ''chmod'', ''chown'', ''ptrace'', ''kill''}),
                (if \<exists>s \<in> set (case get_intent_filters a of None \<Rightarrow> []
                                  | Some fs \<Rightarrow> concat fs).
                      sublist ''BOOT_COMPLETED'' s then 1 else 0)]
     \<and> verdict resp
         = (if risk_score resp < 0.2 then ''benign''
            else if risk_score resp < 0.4 then ''adware''
            else if risk_score resp < 0.6 then ''spyware''
            else if risk_score resp < 0.8 then ''trojan''
            else ''ransomware'')
     \<and> card (set DANGEROUS_PERMISSIONS) = 15"
proof -
  from analyze_hybrid_parsed[OF assms, of "Some clf" tmp] obtain resp feats where
    feats: "static_features P content = Inr feats"
    and resp: "analyze_hybrid P (Some clf) tmp filename content = Inr resp"
    and score: "risk_score resp = clf (extract_vector feats (dynamic_features P tmp content))"
    and verd: "verdict resp = score_verdict (risk_score resp)"
    by auto
  have sys: "set suspicious_sys = {''execve'', ''chmod'', ''chown'', ''ptrace'', ''kill''}"
    by (simp add: suspicious_sys_def)
  have "risk_score resp
         = clf [card (set (get_permissions a) \<inter> set DANGEROUS_PERMISSIONS),
                length (match_suspicious_apis (get_classes a)),
                card (scan_urls P content),
                card (set (get_system_calls (dynamic_features P tmp content))
                      \<inter> {''execve'', ''chmod'', ''chown'', ''ptrace'', ''kill''}),
                (if \<exists>s \<in> set (case get_intent_filters a of None \<Rightarrow> []
                                  | Some fs \<Rightarrow> concat fs).
                      sublist ''BOOT_COMPLETED'' s then 1 else 0)]"
    unfolding score extract_vector_parsed[OF assms(1) feats] sys by (rule refl)
  moreover have "verdict resp
         = (if risk_score resp < 0.2 then ''benign''
            else if risk_score resp < 0.4 then ''adware''
            else if risk_score resp < 0.6 then ''spyware''
            else if risk_score resp < 0.8 then ''trojan''
            else ''ransomware'')"
    unfolding verd score_verdict_def by (rule refl)
  ultimately show ?thesis using resp catalog_size by blast
qed

lemma sample_no_urls: "scan_urls sample_platform ''PK'' = {}"
  by (simp add: scan_urls_def finditer_def match_at_def URL_RE_def)

lemma sample_catalog_perms:
  "card (set (get_permissions sample_apk) \<inter> set DANGEROUS_PERMISSIONS) = 1"
  by (simp add: sample_apk_def DANGEROUS_PERMISSIONS_def)

lemma sample_syscall_hits:
  "card (set (get_system_calls (dynamic_features sample_platform ''/tmp/upload.apk'' ''PK''))
         \<inter> {''execve'', ''chmod'', ''chown'', ''ptrace'', ''kill''}) = 0"
  by (simp add: system_calls_set[OF sample_platform_accepts] sample_classify_hits)

lemma sample_boot_intent:
  "(\<exists>s \<in> set (case get_intent_filters sample_apk of None \<Rightarrow> [] | Some fs \<Rightarrow> concat fs).
       sublist ''BOOT_COMPLETED'' s) = True"
  by (simp add: sample_apk_def py_in_sublist[symmetric])

theorem classifier_override_witness:
  "AnalyzeAPK sample_platform ''PK'' = Inr sample_apk
   \<and> endswith ''upload.apk'' ''.apk'' \<and> ''PK'' \<noteq> []
   \<and> outcome (analyze_hybrid sample_platform (Some sample_classifier)
                 ''/tmp/upload.apk'' ''upload.apk'' ''PK'') = Some (''adware'', 0.3)"
proof -
  have ne: "''PK'' \<noteq> []" by simp
  note inst = classifier_override[OF sample_platform_accepts endswith_apk ne,
      of sample_classifier "''/tmp/upload.apk''"]
  from inst obtain resp where
    resp: "analyze_hybrid sample_platform (Some sample_classifier)
                 ''/tmp/upload.apk'' ''upload.apk'' ''PK'' = Inr resp"
    and score: "risk_score resp = sample_classifier [1, 2, 0, 0, 1]"
    and verd: "verdict resp
         = (if risk_score resp < 0.2 then ''benign''
            else if risk_score resp < 0.4 then ''adware''
            else if risk_score resp < 0.6 then ''spyware''
            else if risk_score resp < 0.8 then ''trojan''
            else ''ransomware'')"
    unfolding sample_no_urls sample_catalog_perms sample_syscall_hits sample_boot_intent
      sample_static_hits
    by auto
  have "risk_score resp = 0.3" by (simp add: score sample_classifier_def)
  with verd have "verdict resp = ''adware''" by simp
  with resp \<open>risk_score resp = 0.3\<close> show ?thesis
    by (simp add: sample_platform_accepts endswith_apk)
qed

section \<open>Range of the risk score and consistency of the verdict\<close>


















section \<open>The IPv4 scan\<close>

lemma many_sound:
  "k' \<in> set (many P (p, s)) \<Longrightarrow> \<exists>w. s = w @ snd k' \<and> w \<noteq> [] \<and> (\<forall>c \<in> set w. P c)"
proof (induction s arbitrary: p)
  case Nil then show ?case by simp
next
  case (Cons c cs)
  show ?case
  proof (cases "P c")
    case False with Cons.prems show ?thesis by simp
  next
    case True
    with Cons.prems consider "k' \<in> set (many P (Some c, cs))" | "k' = (Some c, cs)" by auto
    then show ?thesis
    proof cases
      case 1
      from Cons.IH[OF 1] obtain w where "cs = w @ snd k'" "\<forall>c \<in> set w. P c" by blast
      with True have "c # cs = (c # w) @ snd k' \<and> c # w \<noteq> [] \<and> (\<forall>x \<in> set (c # w). P x)"
        by simp
      then show ?thesis by blast
    next
      case 2
      with True have "c # cs = [c] @ snd k' \<and> [c] \<noteq> [] \<and> (\<forall>x \<in> set [c]. P x)" by simp
      then show ?thesis by blast
    qed
  qed
qed

text \<open>Every end cursor of \<open>step r\<close> lies behind a word of \<open>lang r\<close>.\<close>

lemma step_sound:
  "k' \<in> set (step r k) \<Longrightarrow> \<exists>w \<in> lang r. snd k = w @ snd k'"
proof (induction r arbitrary: k k')
  case Eps
  then show ?case by simp
next
  case (Cls P)
  obtain p s where k: "k = (p, s)" by (cases k)
  from Cls show ?case unfolding k by (cases s) (auto split: if_splits)
next
  case (Sq a b)
  from Sq.prems obtain k1 where k1: "k1 \<in> set (step a k)" and k': "k' \<in> set (step b k1)"
    by auto
  from Sq.IH(1)[OF k1] obtain u where u: "u \<in> lang a" "snd k = u @ snd k1" by blast
  from Sq.IH(2)[OF k'] obtain v where v: "v \<in> lang b" "snd k1 = v @ snd k'" by blast
  have "u @ v \<in> lang (Sq a b)" using u(1) v(1) by auto
  moreover have "snd k = (u @ v) @ snd k'" using u(2) v(2) by simp
  ultimately show ?case by blast
next
  case (Alt a b)
  from Alt.prems consider "k' \<in> set (step a k)" | "k' \<in> set (step b k)" by auto
  then show ?case
  proof cases
    case 1 from Alt.IH(1)[OF 1] show ?thesis by auto
  next
    case 2 from Alt.IH(2)[OF 2] show ?thesis by auto
  qed
next
  case (Opt a)
  from Opt.prems consider "k' \<in> set (step a k)" | "k' = k" by auto
  then show ?case
  proof cases
    case 1 from Opt.IH[OF 1] show ?thesis by auto
  next
    case 2 then show ?thesis by simp
  qed
next
  case (Plus P)
  obtain p s where k: "k = (p, s)" by (cases k)
  from Plus have "k' \<in> set (many P (p, s))" by (simp add: k)
  from many_sound[OF this] show ?case by (auto simp: k)
next
  case WordB
  then show ?case by (auto split: if_splits)
qed

lemma match_at_lang:
  assumes "match_at r (p, s) = Some n"
  shows "take n s \<in> lang r \<and> n \<le> length s"
proof -
  from assms obtain k' ks where st: "step r (p, s) = k' # ks"
    and n: "n = length s - length (snd k')"
    by (auto simp: match_at_def split: list.splits)
  have "k' \<in> set (step r (p, s))" by (simp add: st)
  from step_sound[OF this] obtain w where w: "w \<in> lang r" "s = w @ snd k'" by auto
  have "n = length w" using n w(2)
    by (metis add_diff_cancel_right' length_append)
  moreover have "take (length w) s = w" using w(2) by (metis append_eq_conv_conj)
  ultimately show ?thesis using w by (metis le_add1 length_append)
qed

text \<open>Every match that \<open>finditer_from\<close> lists is the match found at its start position,
  with the byte before that position as left context.\<close>

lemma prev_at_Cons: "prev_at p (c # cs) (Suc j) = prev_at (Some c) cs j"
  by (cases j) (simp_all add: prev_at_def)

lemma entry_shift:
  assumes "Suc i0 \<le> i \<and> i - Suc i0 < length cs
     \<and> match_at r (prev_at (Some c) cs (i - Suc i0), drop (i - Suc i0) cs) = Some (length m)
     \<and> m = take (length m) (drop (i - Suc i0) cs)"
  shows "i0 \<le> i \<and> i - i0 < length (c # cs)
     \<and> match_at r (prev_at p (c # cs) (i - i0), drop (i - i0) (c # cs)) = Some (length m)
     \<and> m = take (length m) (drop (i - i0) (c # cs))"
proof -
  from assms have le: "Suc i0 \<le> i" by blast
  then have e: "i - i0 = Suc (i - Suc i0)" by arith
  from le have "i0 \<le> i" by arith
  moreover from assms have "Suc (i - Suc i0) < length (c # cs)" by simp
  moreover have "drop (Suc (i - Suc i0)) (c # cs) = drop (i - Suc i0) cs" by simp
  ultimately show ?thesis unfolding e prev_at_Cons using assms by presburger
qed

lemma finditer_from_entry:
  "(i, m) \<in> set (finditer_from r p s skip i0) \<Longrightarrow>
     i0 \<le> i \<and> i - i0 < length s
     \<and> match_at r (prev_at p s (i - i0), drop (i - i0) s) = Some (length m)
     \<and> m = take (length m) (drop (i - i0) s)"
proof (induction r p s skip i0 rule: finditer_from.induct)
  case (1 r p skip i)
  then show ?case by simp
next
  case (2 r p c cs i0)
  show ?case
  proof (cases "match_at r (p, c # cs)")
    case None
    with "2.prems" have "(i, m) \<in> set (finditer_from r (Some c) cs 0 (Suc i0))" by simp
    from "2.IH"(1)[OF None this] show ?thesis by (rule entry_shift)
  next
    case (Some n)
    with "2.prems" consider "i = i0" "m = take n (c # cs)"
      | "(i, m) \<in> set (finditer_from r (Some c) cs (n - 1) (Suc i0))" by auto
    then show ?thesis
    proof cases
      case 1
      from match_at_lang[OF Some] have "n \<le> length (c # cs)" by blast
      then have "length m = n" using 1(2) by simp
      then show ?thesis using 1 Some by (simp add: prev_at_def)
    next
      case 2
      from "2.IH"(2)[OF Some 2] show ?thesis by (rule entry_shift)
    qed
  qed
next
  case (3 r p c cs skip i0)
  from "3.prems" have "(i, m) \<in> set (finditer_from r (Some c) cs skip (Suc i0))" by simp
  from "3.IH"[OF this] show ?case by (rule entry_shift)
qed

lemma finditer_entry:
  assumes "(i, m) \<in> set (finditer r raw)"
  shows "i < length raw \<and> match_at r (prev_at None raw i, drop i raw) = Some (length m)
     \<and> m = take (length m) (drop i raw) \<and> m \<in> lang r"
proof -
  from finditer_from_entry[OF assms[unfolded finditer_def]]
  have e: "i < length raw" "match_at r (prev_at None raw i, drop i raw) = Some (length m)"
    "m = take (length m) (drop i raw)" by simp_all
  from match_at_lang[OF e(2)] e(3) have "m \<in> lang r" by simp
  with e show ?thesis by blast
qed

lemma lang_lit: "lang (lit s) = {s}"
  by (induction s) auto

lemma digit_not_dot: "digit c \<Longrightarrow> c \<noteq> CHR ''.''"
  by (auto simp: digit_def)

lemma digit_val_digit: "digit c \<Longrightarrow> digit_val c \<le> 9"
  by (auto simp: digit_def digit_val_def)

lemma class_01: "c \<in> set ''01'' \<Longrightarrow> digit c \<and> digit_val c \<le> 1"
  by (auto simp: digit_def digit_val_def)

lemma class_04: "c \<in> set ''01234'' \<Longrightarrow> digit c \<and> digit_val c \<le> 4"
  by (auto simp: digit_def digit_val_def)

lemma class_05: "c \<in> set ''012345'' \<Longrightarrow> digit c \<and> digit_val c \<le> 5"
  by (auto simp: digit_def digit_val_def)

lemma digit_2_5:
  "digit CHR ''2'' \<and> digit_val CHR ''2'' = 2 \<and> digit CHR ''5'' \<and> digit_val CHR ''5'' = 5"
  by (simp add: digit_def digit_val_def)

lemma decimal_3: "decimal [a, b, c] = 100 * digit_val a + 10 * digit_val b + digit_val c"
  by (simp add: decimal_def)

lemma decimal_2: "decimal [b, c] = 10 * digit_val b + digit_val c"
  by (simp add: decimal_def)

lemma decimal_1: "decimal [c] = digit_val c"
  by (simp add: decimal_def)

lemma is_octet_3:
  "digit a \<Longrightarrow> digit b \<Longrightarrow> digit c \<Longrightarrow>
     100 * digit_val a + 10 * digit_val b + digit_val c \<le> 255 \<Longrightarrow> is_octet [a, b, c]"
  by (simp add: is_octet_def decimal_3)

lemma is_octet_2: "digit b \<Longrightarrow> digit c \<Longrightarrow> is_octet [b, c]"
  using digit_val_digit[of b] digit_val_digit[of c] by (simp add: is_octet_def decimal_2)

lemma is_octet_1: "digit c \<Longrightarrow> is_octet [c]"
  using digit_val_digit[of c] by (simp add: is_octet_def decimal_1)

text \<open>The three alternatives of the octet pattern.\<close>

lemma lang_octet_first:
  assumes "w \<in> lang (Sq (lit ''25'') (Cls (\<lambda>c. c \<in> set ''012345'')))"
  shows "is_octet w"
proof -
  from assms obtain c where w: "w = [CHR ''2'', CHR ''5'', c]" and c: "c \<in> set ''012345''"
    unfolding lang.simps lang_lit by auto
  from class_05[OF c] digit_2_5 show ?thesis unfolding w by (intro is_octet_3) simp_all
qed

lemma lang_octet_second:
  assumes "w \<in> lang (Sq (lit ''2'') (Sq (Cls (\<lambda>c. c \<in> set ''01234'')) (Cls digit)))"
  shows "is_octet w"
proof -
  from assms obtain b c where w: "w = [CHR ''2'', b, c]" and b: "b \<in> set ''01234''"
    and c: "digit c"
    unfolding lang.simps lang_lit by auto
  from class_04[OF b] digit_val_digit[OF c] c digit_2_5 show ?thesis
    unfolding w by (intro is_octet_3) simp_all
qed

lemma lang_octet_third:
  assumes "w \<in> lang (Sq (Opt (Cls (\<lambda>c. c \<in> set ''01''))) (Sq (Opt (Cls digit)) (Cls digit)))"
  shows "is_octet w"
proof -
  from assms obtain u v c where w: "w = u @ v @ [c]"
    and u: "u = [] \<or> (\<exists>a. u = [a] \<and> a \<in> set ''01'')"
    and v: "v = [] \<or> (\<exists>b. v = [b] \<and> digit b)" and c: "digit c"
    unfolding lang.simps by blast
  from u show ?thesis
  proof
    assume u0: "u = []"
    from v show ?thesis
    proof
      assume "v = []" then show ?thesis using c by (simp add: w u0 is_octet_1)
    next
      assume "\<exists>b. v = [b] \<and> digit b"
      then obtain b where "v = [b]" "digit b" by blast
      then show ?thesis using c by (simp add: w u0 is_octet_2)
    qed
  next
    assume "\<exists>a. u = [a] \<and> a \<in> set ''01''"
    then obtain a where ua: "u = [a]" and a: "a \<in> set ''01''" by blast
    from v show ?thesis
    proof
      assume "v = []" then show ?thesis using c class_01[OF a] by (simp add: w ua is_octet_2)
    next
      assume "\<exists>b. v = [b] \<and> digit b"
      then obtain b where vb: "v = [b]" and b: "digit b" by blast
      from class_01[OF a] digit_val_digit[OF b] digit_val_digit[OF c] b c
      have "is_octet [a, b, c]" by (intro is_octet_3) simp_all
      then show ?thesis by (simp add: w ua vb)
    qed
  qed
qed

lemma lang_octet: "w \<in> lang octet_rx \<Longrightarrow> is_octet w"
  unfolding octet_rx_def lang.simps(4) Un_iff
  using lang_octet_first lang_octet_second lang_octet_third by blast

lemma lang_octet_dot: "w \<in> lang octet_dot_rx \<Longrightarrow> \<exists>a. w = a @ ''.'' \<and> is_octet a"
  unfolding octet_dot_rx_def lang.simps(3) lang_lit using lang_octet by blast

lemma lang_IP_RE:
  assumes "m \<in> lang IP_RE"
  shows "\<exists>a b c d. m = a @ ''.'' @ b @ ''.'' @ c @ ''.'' @ d
     \<and> is_octet a \<and> is_octet b \<and> is_octet c \<and> is_octet d"
proof -
  from assms obtain x y z d where m: "m = x @ y @ z @ d"
    and xyz: "x \<in> lang octet_dot_rx" "y \<in> lang octet_dot_rx" "z \<in> lang octet_dot_rx"
    and d: "d \<in> lang octet_rx"
    unfolding IP_RE_def lang.simps by auto
  from lang_octet_dot[OF xyz(1)] lang_octet_dot[OF xyz(2)] lang_octet_dot[OF xyz(3)]
  obtain a b c where "x = a @ ''.''" "y = b @ ''.''" "z = c @ ''.''"
    "is_octet a" "is_octet b" "is_octet c" by blast
  with lang_octet[OF d] m show ?thesis by auto
qed

lemma split_on_nonempty: "split_on sep s \<noteq> []"
  by (induction s) (auto split: list.splits)

lemma split_on_plain: "sep \<notin> set a \<Longrightarrow> split_on sep a = [a]"
  by (induction a) auto

lemma split_on_append:
  "sep \<notin> set a \<Longrightarrow> split_on sep (a @ sep # rest) = a # split_on sep rest"
  by (induction a) auto

lemma is_octet_no_dot: "is_octet a \<Longrightarrow> CHR ''.'' \<notin> set a"
  using digit_not_dot by (auto simp: is_octet_def list_all_iff)

lemma quad_is_dotted_quad:
  assumes "is_octet a" "is_octet b" "is_octet c" "is_octet d"
  shows "dotted_quad (a @ ''.'' @ b @ ''.'' @ c @ ''.'' @ d)"
proof -
  have "split_on CHR ''.'' (a @ ''.'' @ b @ ''.'' @ c @ ''.'' @ d) = [a, b, c, d]"
    using assms[THEN is_octet_no_dot] by (simp add: split_on_append split_on_plain)
  then show ?thesis using assms by (simp add: dotted_quad_def)
qed

lemma lang_IP_RE_dotted_quad: "m \<in> lang IP_RE \<Longrightarrow> dotted_quad m"
  using lang_IP_RE quad_is_dotted_quad by blast

lemma lang_IP_RE_length: "m \<in> lang IP_RE \<Longrightarrow> 7 \<le> length m"
proof -
  assume "m \<in> lang IP_RE"
  from lang_IP_RE[OF this] obtain a b c d where m: "m = a @ ''.'' @ b @ ''.'' @ c @ ''.'' @ d"
    and ne: "a \<noteq> []" "b \<noteq> []" "c \<noteq> []" "d \<noteq> []"
    by (auto simp: is_octet_def)
  from ne have "1 \<le> length a" "1 \<le> length b" "1 \<le> length c" "1 \<le> length d"
    by (simp_all add: Suc_le_eq)
  then show ?thesis unfolding m by simp
qed

lemma lang_IP_RE_chars:
  "m \<in> lang IP_RE \<Longrightarrow> \<forall>x \<in> set m. digit x \<or> x = CHR ''.''"
proof -
  assume "m \<in> lang IP_RE"
  from lang_IP_RE[OF this] show ?thesis by (auto simp: is_octet_def list_all_iff)
qed

lemma no_match_within_digits: "match_at IP_RE (Some CHR ''9'', CHR ''9'' # s) = None"
  by (simp add: match_at_def IP_RE_def at_boundary_def word_char_def)

lemma no_match_at_999: "match_at IP_RE (p, ''999.1.1.1'' @ post) = None"
  by (simp add: match_at_def IP_RE_def octet_dot_rx_def octet_rx_def digit_def)

lemma match_at_192:
  assumes "case p of None \<Rightarrow> True | Some c \<Rightarrow> \<not> word_char c"
    and "case post of [] \<Rightarrow> True | c # cs \<Rightarrow> \<not> word_char c"
  shows "match_at IP_RE (p, ''192.168.0.1'' @ post) = Some 11"
proof -
  have left: "at_boundary (p, ''192.168.0.1'' @ post)"
    using assms(1) by (cases p) (simp_all add: at_boundary_def word_char_def)
  have right: "at_boundary (Some CHR ''1'', post)"
    using assms(2) by (cases post) (simp_all add: at_boundary_def word_char_def)
  have nodigit: "step (Cls digit) (q, post) = []" for q
    using assms(2) by (cases post) (auto simp: digit_def word_char_def)
  show ?thesis
    using left right nodigit
    by (simp add: match_at_def IP_RE_def octet_dot_rx_def octet_rx_def digit_def)
qed

lemma digit_is_word_char: "digit c \<Longrightarrow> word_char c"
  by (auto simp: digit_def word_char_def)

text \<open>A match never contains a byte that is neither a digit nor a dot: a match that
  begins before such a byte ends before it.\<close>

lemma match_ends_before_separator:
  assumes m: "match_at IP_RE (p, c # cs @ rest) = Some n"
    and sep: "\<not> word_char (last (c # cs))" "last (c # cs) \<noteq> CHR ''.''"
  shows "7 \<le> n \<and> n \<le> length cs"
proof -
  let ?s = "c # cs @ rest"
  from match_at_lang[OF m] have w: "take n ?s \<in> lang IP_RE" and n: "n \<le> length ?s"
    by blast+
  from lang_IP_RE_length[OF w] n have n7: "7 \<le> n" by simp
  have "n \<le> length cs"
  proof (rule ccontr)
    assume "\<not> n \<le> length cs"
    then have lt: "length cs < n" by simp
    then have "take n ?s ! length cs = ?s ! length cs" by simp
    also have "?s ! length cs = (c # cs) ! length cs"
      by (metis append_Cons length_Cons lessI nth_append)
    also have "\<dots> = last (c # cs)"
      by (metis diff_Suc_1 last_conv_nth length_Cons list.distinct(1))
    finally have e: "take n ?s ! length cs = last (c # cs)" .
    have "length cs < length (take n ?s)" using lt n by simp
    then have "take n ?s ! length cs \<in> set (take n ?s)" by (rule nth_mem)
    with lang_IP_RE_chars[OF w] e
    have "digit (last (c # cs)) \<or> last (c # cs) = CHR ''.''" by auto
    with sep digit_is_word_char show False by blast
  qed
  with n7 show ?thesis by blast
qed

lemma finditer_from_at_192:
  assumes "case p of None \<Rightarrow> True | Some c \<Rightarrow> \<not> word_char c"
    and "case post of [] \<Rightarrow> True | c # cs \<Rightarrow> \<not> word_char c"
  shows "(i0, ''192.168.0.1'') \<in> set (finditer_from IP_RE p (''192.168.0.1'' @ post) 0 i0)"
proof -
  have eq: "''192.168.0.1'' @ post = CHR ''1'' # (''92.168.0.1'' @ post)" by simp
  have m: "match_at IP_RE (p, CHR ''1'' # (''92.168.0.1'' @ post)) = Some 11"
    using match_at_192[OF assms] unfolding eq .
  have t: "take 11 (CHR ''1'' # (''92.168.0.1'' @ post)) = ''192.168.0.1''" by simp
  have "finditer_from IP_RE p (CHR ''1'' # (''92.168.0.1'' @ post)) 0 i0
      = (i0, ''192.168.0.1'')
        # finditer_from IP_RE (Some CHR ''1'') (''92.168.0.1'' @ post) (11 - 1) (Suc i0)"
    by (simp only: finditer_from.simps m option.case t)
  then show ?thesis unfolding eq by simp
qed

text \<open>The scan reaches an address that stands behind a separator: it is reported.\<close>

lemma finditer_from_reaches_192:
  assumes post: "case post of [] \<Rightarrow> True | c # cs \<Rightarrow> \<not> word_char c"
  shows "(pre = [] \<longrightarrow> skip = 0 \<and> (case p of None \<Rightarrow> True | Some c \<Rightarrow> \<not> word_char c)) \<Longrightarrow>
     (pre \<noteq> [] \<longrightarrow> skip < length pre \<and> \<not> word_char (last pre) \<and> last pre \<noteq> CHR ''.'') \<Longrightarrow>
     (i0 + length pre, ''192.168.0.1'')
       \<in> set (finditer_from IP_RE p (pre @ ''192.168.0.1'' @ post) skip i0)"
proof (induction pre arbitrary: p skip i0)
  case Nil
  then show ?case using finditer_from_at_192[OF _ post, of p i0] by simp
next
  case (Cons c cs)
  from Cons.prems(2) have skip: "skip < Suc (length cs)"
    and sep: "\<not> word_char (last (c # cs))" "last (c # cs) \<noteq> CHR ''.''" by simp_all
  have sep_cs: "cs \<noteq> [] \<Longrightarrow> \<not> word_char (last cs) \<and> last cs \<noteq> CHR ''.''"
    using sep by simp
  have sep_c: "cs = [] \<Longrightarrow> \<not> word_char c" using sep by simp
  let ?rest = "cs @ ''192.168.0.1'' @ post"
  have goal_shift: "(i0 + length (c # cs), ''192.168.0.1'') \<in> set xs"
    if "(Suc i0 + length cs, ''192.168.0.1'') \<in> set xs" for xs
    using that by simp
  show ?case
  proof (cases skip)
    case (Suc k)
    with skip have k: "k < length cs" by simp
    then have ne: "cs \<noteq> []" by auto
    have "(Suc i0 + length cs, ''192.168.0.1'')
        \<in> set (finditer_from IP_RE (Some c) ?rest k (Suc i0))"
      using ne k sep_cs by (intro Cons.IH) simp_all
    then show ?thesis unfolding Suc by (intro goal_shift) simp
  next
    case 0
    show ?thesis
    proof (cases "match_at IP_RE (p, c # ?rest)")
      case None
      have "(Suc i0 + length cs, ''192.168.0.1'')
          \<in> set (finditer_from IP_RE (Some c) ?rest 0 (Suc i0))"
        using sep_cs sep_c by (intro Cons.IH) (cases cs, simp_all)
      then show ?thesis unfolding 0 using None by (intro goal_shift) simp
    next
      case (Some n)
      from match_ends_before_separator[OF Some sep] have n: "7 \<le> n" "n \<le> length cs"
        by blast+
      then have ne: "cs \<noteq> []" and k: "n - 1 < length cs" by auto
      have "(Suc i0 + length cs, ''192.168.0.1'')
          \<in> set (finditer_from IP_RE (Some c) ?rest (n - 1) (Suc i0))"
        using ne k sep_cs by (intro Cons.IH) simp_all
      then show ?thesis unfolding 0 using Some by (intro goal_shift) simp
    qed
  qed
qed

lemma not_dotted_quad_999: "\<not> dotted_quad ''999.1.1.1''"
  by (simp add: dotted_quad_def is_octet_def decimal_def digit_val_def)

lemma scan_trailing_octet: "finditer IP_RE ''999.1.1.1.1'' = [(4, ''1.1.1.1'')]"
  by (simp add: finditer_def match_at_def IP_RE_def octet_dot_rx_def octet_rx_def digit_def
        at_boundary_def word_char_def)

lemma scan_embedded_192: "finditer IP_RE ''x192.168.0.1'' = []"
  by (simp add: finditer_def match_at_def IP_RE_def octet_dot_rx_def octet_rx_def digit_def
        at_boundary_def word_char_def)

lemma scan_ips_dotted_quad: "m \<in> scan_ips raw \<Longrightarrow> dotted_quad m"
proof -
  assume "m \<in> scan_ips raw"
  then obtain i where "(i, m) \<in> set (finditer IP_RE raw)"
    by (auto simp: scan_ips_def)
  from finditer_entry[OF this] have "m \<in> lang IP_RE" by blast
  then show ?thesis by (rule lang_IP_RE_dotted_quad)
qed

lemma scan_ips_reports_192:
  assumes "pre = [] \<or> (\<not> word_char (last pre) \<and> last pre \<noteq> CHR ''.'')"
    and "post = [] \<or> \<not> word_char (hd post)"
  shows "''192.168.0.1'' \<in> scan_ips (pre @ ''192.168.0.1'' @ post)"
proof -
  have post: "case post of [] \<Rightarrow> True | c # cs \<Rightarrow> \<not> word_char c"
    using assms(2) by (cases post) simp_all
  have "(0 + length pre, ''192.168.0.1'')
      \<in> set (finditer_from IP_RE None (pre @ ''192.168.0.1'' @ post) 0 0)"
    using assms(1) by (intro finditer_from_reaches_192[OF post]) auto
  then have "(length pre, ''192.168.0.1'') \<in> set (finditer IP_RE (pre @ ''192.168.0.1'' @ post))"
    by (simp add: finditer_def)
  then show ?thesis unfolding scan_ips_def by force
qed

text \<open>No match lies within an occurrence of 999.1.1.1.\<close>

lemma no_match_inside_999:
  assumes e: "(i, w) \<in> set (finditer IP_RE (pre @ ''999.1.1.1'' @ post))"
  shows "\<not> (length pre \<le> i \<and> i + length w \<le> length pre + 9)"
proof
  let ?s = "pre @ ''999.1.1.1'' @ post"
  assume inside: "length pre \<le> i \<and> i + length w \<le> length pre + 9"
  from finditer_entry[OF e] have
    m: "match_at IP_RE (prev_at None ?s i, drop i ?s) = Some (length w)"
    and l: "w \<in> lang IP_RE" by blast+
  define k where "k = i - length pre"
  from lang_IP_RE_length[OF l] have w7: "7 \<le> length w" .
  from inside have i: "i = length pre + k" unfolding k_def by arith
  from inside w7 have k: "k \<le> 2" unfolding k_def by arith
  from k consider "k = 0" | "k = 1" | "k = 2" by arith
  then show False
  proof cases
    case 1
    have "drop i ?s = ''999.1.1.1'' @ post" by (simp add: i 1)
    with m no_match_at_999 show False by simp
  next
    case 2
    have "drop i ?s = CHR ''9'' # (''9.1.1.1'' @ post)" by (simp add: i 2)
    moreover have "prev_at None ?s i = Some CHR ''9''"
      by (simp add: prev_at_def i 2 nth_append)
    ultimately show False using m no_match_within_digits by simp
  next
    case 3
    have "drop i ?s = CHR ''9'' # (''.1.1.1'' @ post)" by (simp add: i 3)
    moreover have "prev_at None ?s i = Some CHR ''9''"
      by (simp add: prev_at_def i 3 nth_append)
    ultimately show False using m no_match_within_digits by simp
  qed
qed

text \<open>
  C9, as the code has it. Every reported IP hit is a dotted quad: four parts separated by
  dots, each of one to three decimal digits (leading zeros allowed) with a value from 0 to
  255. An occurrence of 192.168.0.1 is reported when it stands at the start of the input
  or behind a byte that is neither a word byte (letter, digit, underscore) nor a dot, and
  at the end of the input or before a byte that is not a word byte. 999.1.1.1 is never
  reported, in any input, and no reported match lies within an occurrence of it.
\<close>

theorem ipv4_scan_hits:
  "(m \<in> scan_ips raw \<longrightarrow> dotted_quad m)
   \<and> ((pre = [] \<or> (\<not> word_char (last pre) \<and> last pre \<noteq> CHR ''.''))
        \<and> (post = [] \<or> \<not> word_char (hd post))
       \<longrightarrow> ''192.168.0.1'' \<in> scan_ips (pre @ ''192.168.0.1'' @ post))
   \<and> ''999.1.1.1'' \<notin> scan_ips raw
   \<and> ((i, w) \<in> set (finditer IP_RE (pre' @ ''999.1.1.1'' @ post'))
       \<longrightarrow> \<not> (length pre' \<le> i \<and> i + length w \<le> length pre' + 9))"
proof (intro conjI impI)
  assume "m \<in> scan_ips raw"
  then show "dotted_quad m" by (rule scan_ips_dotted_quad)
next
  assume "(pre = [] \<or> (\<not> word_char (last pre) \<and> last pre \<noteq> CHR ''.''))
        \<and> (post = [] \<or> \<not> word_char (hd post))"
  then show "''192.168.0.1'' \<in> scan_ips (pre @ ''192.168.0.1'' @ post)"
    using scan_ips_reports_192 by blast
next
  show "''999.1.1.1'' \<notin> scan_ips raw"
    using scan_ips_dotted_quad[of "''999.1.1.1''" raw] not_dotted_quad_999 by blast
next
  assume "(i, w) \<in> set (finditer IP_RE (pre' @ ''999.1.1.1'' @ post'))"
  then show "\<not> (length pre' \<le> i \<and> i + length w \<le> length pre' + 9)"
    by (rule no_match_inside_999)
qed

theorem ipv4_scan_hits_witness:
  "''192.168.0.1'' \<in> scan_ips ''192.168.0.1''
   \<and> dotted_quad ''192.168.0.1''
   \<and> ''999.1.1.1'' \<notin> scan_ips ''192.168.0.1''
   \<and> (4, ''1.1.1.1'') \<in> set (finditer IP_RE ''999.1.1.1.1'')
   \<and> \<not> (0 \<le> (4::nat) \<and> 4 + length ''1.1.1.1'' \<le> 0 + (9::nat))"
proof -
  have a: "([]::string) = [] \<or> (\<not> word_char (last []) \<and> last [] \<noteq> CHR ''.'')" by simp
  have b: "([]::string) = [] \<or> \<not> word_char (hd [])" by simp
  have e: "(4, ''1.1.1.1'') \<in> set (finditer IP_RE ([] @ ''999.1.1.1'' @ ''.1''))"
    by (simp add: scan_trailing_octet)
  note inst = ipv4_scan_hits[where pre = "[]" and post = "[]" and raw = "''192.168.0.1''"
      and m = "''192.168.0.1''" and pre' = "[]" and post' = "''.1''" and i = 4
      and w = "''1.1.1.1''"]
  from inst a b have r: "''192.168.0.1'' \<in> scan_ips ([] @ ''192.168.0.1'' @ [])" by blast
  then have r': "''192.168.0.1'' \<in> scan_ips ''192.168.0.1''" by simp
  with inst have q: "dotted_quad ''192.168.0.1''" by blast
  from inst have n: "''999.1.1.1'' \<notin> scan_ips ''192.168.0.1''" by blast
  from inst e have "\<not> (length ([]::string) \<le> 4 \<and> 4 + length ''1.1.1.1'' \<le> length ([]::string) + 9)"
    by blast
  then have "\<not> (0 \<le> (4::nat) \<and> 4 + length ''1.1.1.1'' \<le> 0 + (9::nat))" by simp
  with r' q n e show ?thesis by simp
qed

text \<open>
  C9 as stated fails: the pattern begins and ends with \<^verbatim>\<open>\b\<close>, so an occurrence of
  192.168.0.1 directly behind a letter is not reported.
\<close>

theorem embedded_address_not_reported:
  "sublist ''192.168.0.1'' ''x192.168.0.1'' \<and> scan_ips ''x192.168.0.1'' = {}"
proof
  show "sublist ''192.168.0.1'' ''x192.168.0.1''" by (simp add: py_in_sublist[symmetric])
  show "scan_ips ''x192.168.0.1'' = {}" by (simp add: scan_ips_def scan_embedded_192)
qed

end
